theory Spec2Isabelle
  imports Main "HOL-Library.AList"
begin

section \<open>Python values\<close>

text \<open>
  The distributed render dispatcher of \<^verbatim>\<open>src/tools.py\<close> (lines 242 to 382) is embedded
  function by function. Python exceptions are values of type \<open>error\<close>; a function that can
  raise returns \<open>error + 'a\<close>, with \<open>Inl\<close> for the exception. Python's \<open>int\<close> is \<open>int\<close>,
  a \<open>str\<close> is a \<open>string\<close> (code points below 256, on which the class \<^verbatim>\<open>\d\<close> of
  \<^verbatim>\<open>re\<close> is exactly the ten ASCII digits), a \<open>dict\<close> is an association list kept in
  insertion order and written with \<open>AList.update\<close>, which replaces the value of a key that
  is present and appends a new key otherwise, as assignment to a \<open>dict\<close> entry does.
\<close>

datatype error = ZeroDivisionError | StopIteration | TypeError | KeyError | ValueError | OSError

text \<open>\<^verbatim>\<open>str(f)\<close> for an integer: decimal digits, with a minus sign when negative.\<close>

fun str_nat :: "nat \<Rightarrow> string" where
  "str_nat n =
     (if n < 10 then [''0123456789'' ! n]
      else str_nat (n div 10) @ [''0123456789'' ! (n mod 10)])"

declare str_nat.simps [simp del]

definition str_int :: "int \<Rightarrow> string" where
  "str_int i = (if i < 0 then CHR ''-'' # str_nat (nat (- i)) else str_nat (nat i))"

text \<open>\<^verbatim>\<open>sep.join(items)\<close>.\<close>

fun join :: "string \<Rightarrow> string list \<Rightarrow> string" where
  "join sep [] = []"
| "join sep [x] = x"
| "join sep (x # y # ys) = x @ sep @ join sep (y # ys)"

text \<open>\<^verbatim>\<open>'{}'.format(v)\<close> for a value that is a string or \<^verbatim>\<open>None\<close>.\<close>

definition format_opt :: "string option \<Rightarrow> string" where
  "format_opt v = (case v of None \<Rightarrow> ''None'' | Some s \<Rightarrow> s)"

text \<open>\<^verbatim>\<open>d[k]\<close>: a missing key raises \<^verbatim>\<open>KeyError\<close>.\<close>

definition getitem :: "('k \<times> 'v) list \<Rightarrow> 'k \<Rightarrow> error + 'v" where
  "getitem d k = (case map_of d k of None \<Rightarrow> Inl KeyError | Some v \<Rightarrow> Inr v)"

text \<open>\<^verbatim>\<open>d.update(e)\<close>: the entries of \<open>e\<close> are assigned in turn.\<close>

definition dict_update :: "('k \<times> 'v) list \<Rightarrow> ('k \<times> 'v) list \<Rightarrow> ('k \<times> 'v) list" where
  "dict_update d e = foldl (\<lambda>acc (k, v). AList.update k v acc) d e"

text \<open>
  \<^verbatim>\<open>os.path.join(a, b)\<close> of \<^verbatim>\<open>posixpath\<close> for two components: an absolute \<open>b\<close> replaces
  \<open>a\<close>; an empty \<open>a\<close>, or one that ends with the separator, takes \<open>b\<close> directly; otherwise a
  separator is put between them.
\<close>

definition path_join :: "string \<Rightarrow> string \<Rightarrow> string" where
  "path_join a b =
     (if take 1 b = ''/'' then b
      else if a = [] \<or> last a = CHR ''/'' then a @ b
      else a @ ''/'' @ b)"

text \<open>
  \<^verbatim>\<open>range(start, stop, step)\<close> as the list of its elements; a zero step raises
  \<^verbatim>\<open>ValueError\<close>.
\<close>

definition py_range :: "int \<Rightarrow> int \<Rightarrow> int \<Rightarrow> error + int list" where
  "py_range start stop step =
     (if step = 0 then Inl ValueError
      else if 0 < step then
        Inr (map (\<lambda>k. start + int k * step) [0..<nat ((stop - start + step - 1) div step)])
      else
        Inr (map (\<lambda>k. start + int k * step) [0..<nat ((start - stop - step - 1) div (- step))]))"

text \<open>The double quote character of the command templates.\<close>

definition dq :: string where
  "dq = [CHR 0x22]"

section \<open>The render command (\<^verbatim>\<open>build_frames\<close>, \<^verbatim>\<open>build_output\<close>, \<^verbatim>\<open>build_blender\<close>)\<close>

definition build_frames :: "int list option \<Rightarrow> (string \<times> string) list" where
  "build_frames frames =
     (let args = [] in
      case frames of
        Some fs \<Rightarrow> AList.update ''frames'' (''-f '' @ join '','' (map str_int fs)) args
      | None \<Rightarrow> AList.update ''frames'' '''' args)"

text \<open>
  The output directory comes from the optional \<^verbatim>\<open>-o\<close> argument and is \<^verbatim>\<open>None\<close>
  when the option is not given; \<^verbatim>\<open>os.path.join\<close> raises \<^verbatim>\<open>TypeError\<close> on it.
\<close>

definition build_output :: "string option \<Rightarrow> error + (string \<times> string) list" where
  "build_output path =
     (let file_extension = ''png'';
          file_name_template = ''####.'' @ file_extension
      in case path of
           None \<Rightarrow> Inl TypeError
         | Some p \<Rightarrow> Inr [(''output'', ''-o '' @ path_join p file_name_template)])"

text \<open>
  The template \<^verbatim>\<open>'blender -b {blend_file} {output} {frames}'\<close> is filled from the
  dictionary \<open>args\<close>: each field is a lookup there.
\<close>

definition build_blender :: "string \<Rightarrow> string option \<Rightarrow> int list option \<Rightarrow> error + string" where
  "build_blender blend_file output frames =
     (let args = [(''blend_file'', blend_file)];
          args = dict_update args (build_frames frames)
      in case build_output output of
           Inl e \<Rightarrow> Inl e
         | Inr out_args \<Rightarrow>
             (let args = dict_update args out_args
              in case getitem args ''blend_file'' of
                   Inl e \<Rightarrow> Inl e
                 | Inr f_blend_file \<Rightarrow>
                     (case getitem args ''output'' of
                        Inl e \<Rightarrow> Inl e
                      | Inr f_output \<Rightarrow>
                          (case getitem args ''frames'' of
                             Inl e \<Rightarrow> Inl e
                           | Inr f_frames \<Rightarrow>
                               Inr (''blender -b '' @ f_blend_file @ '' '' @ f_output
                                    @ '' '' @ f_frames)))))"

section \<open>External processes\<close>

text \<open>
  Every effect of the dispatcher is a call that starts an external process. The state is
  the trace of these calls, in program order:
  \<^item> \<open>Shell cmd\<close>: \<^verbatim>\<open>shell(cmd)\<close>, which starts the command and waits for it;
  \<^item> \<open>Communicate cmd\<close>: the \<^verbatim>\<open>Popen\<close> with a piped output and the
    \<^verbatim>\<open>communicate()\<close> of \<^verbatim>\<open>get_file_mod_date\<close>;
  \<^item> \<open>Popen cmd\<close>: a render process started and not waited for; its handle is the
    position of this event in the trace;
  \<^item> \<open>Wait p\<close>: \<^verbatim>\<open>p.wait()\<close> on the handle \<open>p\<close>.

  An event records that the program made the call. The world, a function of the trace so
  far and of the command line, then answers: the call raises (\<^verbatim>\<open>shlex.split\<close> rejects
  the line, \<^verbatim>\<open>Popen\<close> cannot start the program, the output does not decode), or the
  process runs to an exit status and an output. The dispatcher never reads the exit status.
  Console output (\<^verbatim>\<open>print\<close>) is not part of the trace.
\<close>

datatype event = Shell string | Communicate string | Popen string | Wait nat

record completed =
  returncode :: int
  std_out :: string

type_synonym world = "event list \<Rightarrow> string \<Rightarrow> error + completed"

definition shell :: "world \<Rightarrow> string \<Rightarrow> event list \<Rightarrow> (error + unit) \<times> event list" where
  "shell w cmd_str tr =
     (case w tr cmd_str of
        Inl e \<Rightarrow> (Inl e, tr @ [Shell cmd_str])
      | Inr p \<Rightarrow> (Inr (), tr @ [Shell cmd_str]))"

definition blender ::
  "world \<Rightarrow> string \<Rightarrow> string option \<Rightarrow> int list option \<Rightarrow> event list \<Rightarrow> (error + nat) \<times> event list" where
  "blender w blend_file output frames tr =
     (case build_blender blend_file output frames of
        Inl e \<Rightarrow> (Inl e, tr)
      | Inr cmd \<Rightarrow>
          (case w tr cmd of
             Inl e \<Rightarrow> (Inl e, tr @ [Popen cmd])
           | Inr p \<Rightarrow> (Inr (length tr), tr @ [Popen cmd])))"

definition copy_to_host :: "world \<Rightarrow> string \<Rightarrow> string \<Rightarrow> event list \<Rightarrow> (error + unit) \<times> event list" where
  "copy_to_host w blend_file host tr = shell w (''scp -p '' @ blend_file @ '' '' @ host @ '':'') tr"

definition copy_results_from_host ::
  "world \<Rightarrow> string \<Rightarrow> string option \<Rightarrow> event list \<Rightarrow> (error + unit) \<times> event list" where
  "copy_results_from_host w host output tr =
     shell w (''scp -r '' @ dq @ host @ '':'' @ format_opt output @ ''/*'' @ dq @ '' ./''
              @ format_opt output) tr"

definition cleanup_host ::
  "world \<Rightarrow> string \<Rightarrow> string \<Rightarrow> string option \<Rightarrow> event list \<Rightarrow> (error + unit) \<times> event list" where
  "cleanup_host w host blend_file output tr =
     shell w (''ssh '' @ host @ '' rm -r '' @ format_opt output) tr"

section \<open>The timestamp query (\<^verbatim>\<open>get_file_mod_date\<close>)\<close>

text \<open>
  The pattern \<^verbatim>\<open>^Modify: \d{4}-\d{2}-\d{2} \d{2}:\d{2}:\d{2}\<close> is a sequence of literal
  characters and digit classes. Under \<^verbatim>\<open>re.MULTILINE\<close> the anchor holds at the start of
  the text and right after every newline; \<^verbatim>\<open>search\<close> returns the leftmost match, or
  \<^verbatim>\<open>None\<close>.
\<close>

datatype pat = Lit char | Digit

definition is_digit :: "char \<Rightarrow> bool" where
  "is_digit c = (c \<in> set ''0123456789'')"

fun pat_ok :: "pat \<Rightarrow> char \<Rightarrow> bool" where
  "pat_ok (Lit a) c = (a = c)"
| "pat_ok Digit c = is_digit c"

definition modify_pattern :: "pat list" where
  "modify_pattern =
     map Lit ''Modify: '' @ replicate 4 Digit @ [Lit CHR ''-''] @ replicate 2 Digit
     @ [Lit CHR ''-''] @ replicate 2 Digit @ [Lit CHR '' ''] @ replicate 2 Digit
     @ [Lit CHR '':''] @ replicate 2 Digit @ [Lit CHR '':''] @ replicate 2 Digit"

fun match_here :: "pat list \<Rightarrow> string \<Rightarrow> string option" where
  "match_here [] s = Some []"
| "match_here (p # ps) [] = None"
| "match_here (p # ps) (c # cs) =
     (if pat_ok p c then map_option (Cons c) (match_here ps cs) else None)"

fun search_lines :: "pat list \<Rightarrow> bool \<Rightarrow> string \<Rightarrow> string option" where
  "search_lines ps bol [] = (if bol then match_here ps [] else None)"
| "search_lines ps bol (c # cs) =
     (case (if bol then match_here ps (c # cs) else None) of
        Some m \<Rightarrow> Some m
      | None \<Rightarrow> search_lines ps (c = CHR 0x0A) cs)"

definition regex_search :: "string \<Rightarrow> string option" where
  "regex_search s = search_lines modify_pattern True s"

text \<open>The command line of the query: \<^verbatim>\<open>stat\<close>, wrapped in \<^verbatim>\<open>ssh\<close> for a remote host.\<close>

definition stat_cmd :: "string \<Rightarrow> string \<Rightarrow> string" where
  "stat_cmd file_name host =
     (let cmd = ''stat '' @ file_name
      in if host \<noteq> ''localhost'' then ''ssh '' @ host @ '' '' @ dq @ cmd @ dq else cmd)"

text \<open>
  \<^verbatim>\<open>regex.search(std_out)[0]\<close>: when nothing matches, \<^verbatim>\<open>search\<close> returns \<^verbatim>\<open>None\<close>
  and the subscript raises \<^verbatim>\<open>TypeError\<close>.
\<close>

definition get_file_mod_date ::
  "world \<Rightarrow> string \<Rightarrow> string \<Rightarrow> event list \<Rightarrow> (error + string) \<times> event list" where
  "get_file_mod_date w file_name host tr =
     (let cmd = stat_cmd file_name host
      in case w tr cmd of
           Inl e \<Rightarrow> (Inl e, tr @ [Communicate cmd])
         | Inr p \<Rightarrow>
             (case regex_search (std_out p) of
                None \<Rightarrow> (Inl TypeError, tr @ [Communicate cmd])
              | Some m \<Rightarrow> (Inr m, tr @ [Communicate cmd])))"

section \<open>Dispatch to a remote host (\<^verbatim>\<open>remote_blender\<close>)\<close>

text \<open>
  The keyword arguments are the three that \<^verbatim>\<open>_run\<close> passes. The remote date is queried
  first, then the local one; the file is copied when the two strings differ.
\<close>

definition remote_blender ::
  "world \<Rightarrow> string \<Rightarrow> string \<Rightarrow> string option \<Rightarrow> int list option \<Rightarrow> event list
     \<Rightarrow> (error + nat) \<times> event list" where
  "remote_blender w host blend_file output frames tr =
     (case get_file_mod_date w blend_file host tr of
        (Inl e, tr1) \<Rightarrow> (Inl e, tr1)
      | (Inr remote_date, tr1) \<Rightarrow>
          (case get_file_mod_date w blend_file ''localhost'' tr1 of
             (Inl e, tr2) \<Rightarrow> (Inl e, tr2)
           | (Inr local_date, tr2) \<Rightarrow>
               (case (if remote_date \<noteq> local_date then copy_to_host w blend_file host tr2
                      else (Inr (), tr2)) of
                  (Inl e, tr3) \<Rightarrow> (Inl e, tr3)
                | (Inr u, tr3) \<Rightarrow>
                    (case build_blender blend_file output frames of
                       Inl e \<Rightarrow> (Inl e, tr3)
                     | Inr blend_cmd \<Rightarrow>
                         (let cmd = ''ssh '' @ host @ '' '' @ dq @ blend_cmd @ dq
                          in case w tr3 cmd of
                               Inl e \<Rightarrow> (Inl e, tr3 @ [Popen cmd])
                             | Inr p \<Rightarrow> (Inr (length tr3), tr3 @ [Popen cmd]))))))"

section \<open>The partitioner (\<^verbatim>\<open>slice_list\<close>, \<^verbatim>\<open>split_frames_per_host\<close>)\<close>

text \<open>
  The iterator over the input is the list of the elements not yet consumed;
  \<^verbatim>\<open>next\<close> on an exhausted iterator raises \<^verbatim>\<open>StopIteration\<close>. \<open>fill\<close> is the inner loop
  \<^verbatim>\<open>for j in range(slice_size)\<close>, which appends to the slice being built; \<open>slice_loop\<close>
  is the outer loop \<^verbatim>\<open>for i in range(size)\<close>, which carries \<open>remain\<close> from one round
  to the next.
\<close>

fun fill :: "nat \<Rightarrow> 'a list \<Rightarrow> 'a list \<Rightarrow> error + ('a list \<times> 'a list)" where
  "fill 0 cur it = Inr (cur, it)"
| "fill (Suc j) cur it =
     (case it of
        [] \<Rightarrow> Inl StopIteration
      | x # it' \<Rightarrow> fill j (cur @ [x]) it')"

fun slice_loop :: "nat \<Rightarrow> nat \<Rightarrow> int \<Rightarrow> 'a list \<Rightarrow> 'a list list \<Rightarrow> error + 'a list list" where
  "slice_loop 0 slice_size remain it result = Inr result"
| "slice_loop (Suc i) slice_size remain it result =
     (case fill slice_size [] it of
        Inl e \<Rightarrow> Inl e
      | Inr (cur, it') \<Rightarrow>
          if remain \<noteq> 0 then
            (case it' of
               [] \<Rightarrow> Inl StopIteration
             | x # it'' \<Rightarrow> slice_loop i slice_size (remain - 1) it'' (result @ [cur @ [x]]))
          else slice_loop i slice_size remain it' (result @ [cur]))"

text \<open>
  \<^verbatim>\<open>//\<close> and \<^verbatim>\<open>%\<close> are floor division and its remainder, as \<open>div\<close> and \<open>mod\<close> on
  \<open>int\<close> are; a zero divisor raises. \<^verbatim>\<open>range\<close> of a negative number is empty.
\<close>

definition slice_list :: "'a list \<Rightarrow> int \<Rightarrow> error + 'a list list" where
  "slice_list input size' =
     (if size' = 0 then Inl ZeroDivisionError
      else
        let input_size = int (length input);
            slice_size = input_size div size';
            remain = input_size mod size'
        in slice_loop (nat size') (nat slice_size) remain input [])"

definition split_frames_per_host ::
  "'a list \<Rightarrow> string list \<Rightarrow> error + (string \<times> 'a list) list" where
  "split_frames_per_host frames hosts =
     (case slice_list frames (int (length hosts)) of
        Inl e \<Rightarrow> Inl e
      | Inr frame_slices \<Rightarrow>
          Inr (foldl (\<lambda>d (host, fs). AList.update host fs d) [] (zip hosts frame_slices)))"

section \<open>The dispatcher (\<^verbatim>\<open>BlenderRender._run\<close>)\<close>

text \<open>
  The parsed command line. \<^verbatim>\<open>blend_file\<close> is positional; \<^verbatim>\<open>start_frame\<close>,
  \<^verbatim>\<open>jump\<close> and \<^verbatim>\<open>distribute\<close> have defaults; the other options are \<^verbatim>\<open>None\<close> when
  not given.
\<close>

record args =
  arg_blend_file :: string
  arg_output :: "string option"
  arg_num_frames :: "int option"
  arg_start_frame :: int
  arg_end_frame :: "int option"
  arg_distribute :: "string list"
  arg_jump :: int

text \<open>
  The frame range of a run (the first five lines of \<^verbatim>\<open>_run\<close>). \<^verbatim>\<open>if args.end_frame\<close>
  is false for \<^verbatim>\<open>None\<close> and for \<open>0\<close>; \<^verbatim>\<open>min\<close> with \<^verbatim>\<open>None\<close> and \<^verbatim>\<open>None + 1\<close>
  raise \<^verbatim>\<open>TypeError\<close>.
\<close>

definition run_frames :: "args \<Rightarrow> error + int list" where
  "run_frames a =
     (case (case arg_end_frame a of
              None \<Rightarrow> Inr (arg_num_frames a)
            | Some e \<Rightarrow>
                if e \<noteq> 0 then
                  (case arg_num_frames a of
                     None \<Rightarrow> Inl TypeError
                   | Some n \<Rightarrow> Inr (Some (min n e)))
                else Inr (arg_num_frames a)) of
        Inl e \<Rightarrow> Inl e
      | Inr None \<Rightarrow> Inl TypeError
      | Inr (Some end_frame) \<Rightarrow> py_range (arg_start_frame a) (end_frame + 1) (arg_jump a))"

text \<open>The launch loop: one process per entry of the host list, its handle appended.\<close>

fun launch_loop ::
  "world \<Rightarrow> args \<Rightarrow> (string \<times> int list) list \<Rightarrow> string list \<Rightarrow> nat list \<Rightarrow> event list
     \<Rightarrow> (error + nat list) \<times> event list" where
  "launch_loop w a frames_per_host [] processes tr = (Inr processes, tr)"
| "launch_loop w a frames_per_host (host # hosts) processes tr =
     (case getitem frames_per_host host of
        Inl e \<Rightarrow> (Inl e, tr)
      | Inr frames' \<Rightarrow>
          (case (if host = ''localhost'' then
                   blender w (arg_blend_file a) (arg_output a) (Some frames') tr
                 else
                   remote_blender w host (arg_blend_file a) (arg_output a) (Some frames') tr) of
             (Inl e, tr') \<Rightarrow> (Inl e, tr')
           | (Inr p, tr') \<Rightarrow> launch_loop w a frames_per_host hosts (processes @ [p]) tr'))"

text \<open>The wait loop.\<close>

fun wait_loop :: "nat list \<Rightarrow> event list \<Rightarrow> event list" where
  "wait_loop [] tr = tr"
| "wait_loop (p # processes) tr = wait_loop processes (tr @ [Wait p])"

text \<open>The retrieval loop: copy the results back, then remove them on the host.\<close>

fun retrieve_loop :: "world \<Rightarrow> args \<Rightarrow> string list \<Rightarrow> event list \<Rightarrow> (error + unit) \<times> event list" where
  "retrieve_loop w a [] tr = (Inr (), tr)"
| "retrieve_loop w a (host # hosts) tr =
     (if host \<noteq> ''localhost'' then
        (case copy_results_from_host w host (arg_output a) tr of
           (Inl e, tr1) \<Rightarrow> (Inl e, tr1)
         | (Inr u, tr1) \<Rightarrow>
             (case cleanup_host w host (arg_blend_file a) (arg_output a) tr1 of
                (Inl e, tr2) \<Rightarrow> (Inl e, tr2)
              | (Inr u', tr2) \<Rightarrow> retrieve_loop w a hosts tr2))
      else retrieve_loop w a hosts tr)"

text \<open>\<^verbatim>\<open>_run\<close>; an identifier cannot start with an underscore, so it is \<open>run\<close> here.\<close>

definition run :: "world \<Rightarrow> args \<Rightarrow> event list \<Rightarrow> (error + unit) \<times> event list" where
  "run w a tr =
     (case run_frames a of
        Inl e \<Rightarrow> (Inl e, tr)
      | Inr frames \<Rightarrow>
          (case split_frames_per_host frames (arg_distribute a) of
             Inl e \<Rightarrow> (Inl e, tr)
           | Inr frames_per_host \<Rightarrow>
               (case launch_loop w a frames_per_host (arg_distribute a) [] tr of
                  (Inl e, tr1) \<Rightarrow> (Inl e, tr1)
                | (Inr processes, tr1) \<Rightarrow>
                    retrieve_loop w a (arg_distribute a) (wait_loop processes tr1))))"

section \<open>Observations on traces and sample inputs\<close>

text \<open>
  What a trace shows: the command lines of the render processes started, the handle of
  each of them (the first event of the list has position \<open>n\<close>), and the handles
  waited for, each in program order.
\<close>

fun launched :: "event list \<Rightarrow> string list" where
  "launched [] = []"
| "launched (Popen c # es) = c # launched es"
| "launched (e # es) = launched es"

fun handles :: "nat \<Rightarrow> event list \<Rightarrow> nat list" where
  "handles n [] = []"
| "handles n (Popen c # es) = n # handles (Suc n) es"
| "handles n (e # es) = handles (Suc n) es"

fun waits :: "event list \<Rightarrow> nat list" where
  "waits [] = []"
| "waits (Wait p # es) = p # waits es"
| "waits (e # es) = waits es"

text \<open>
  The shape \<^verbatim>\<open>Modify: YYYY-MM-DD HH:MM:SS\<close> in words: the literal prefix, then six
  groups of digits of widths 4, 2, 2, 2, 2 and 2 with their separators. An output has a
  timestamp line when a text of this shape starts at its beginning or right after a
  newline.
\<close>

definition timestamp_shape :: "string \<Rightarrow> bool" where
  "timestamp_shape m \<longleftrightarrow>
     (\<exists>y mo d h mi s.
        m = ''Modify: '' @ y @ ''-'' @ mo @ ''-'' @ d @ '' '' @ h @ '':'' @ mi @ '':'' @ s
        \<and> length y = 4 \<and> length mo = 2 \<and> length d = 2
        \<and> length h = 2 \<and> length mi = 2 \<and> length s = 2
        \<and> (\<forall>c \<in> set (y @ mo @ d @ h @ mi @ s). is_digit c))"

definition has_timestamp_line :: "string \<Rightarrow> bool" where
  "has_timestamp_line out \<longleftrightarrow>
     (\<exists>pre m post. out = pre @ m @ post \<and> (pre = [] \<or> last pre = CHR 0x0A)
        \<and> timestamp_shape m)"

text \<open>
  A cooperative world: no call raises, and every \<^verbatim>\<open>stat\<close> query prints a timestamp
  line. Exit statuses are left free.
\<close>

definition cooperative :: "world \<Rightarrow> bool" where
  "cooperative w \<longleftrightarrow>
     (\<forall>tr cmd. \<exists>p. w tr cmd = Inr p) \<and>
     (\<forall>tr file_name host p.
        w tr (stat_cmd file_name host) = Inr p \<longrightarrow> regex_search (std_out p) \<noteq> None)"

text \<open>
  Sample worlds: one in which every process exits with the given status and prints the
  given text, and one in which every process exits with status \<open>rc\<close>, a command sent
  through \<^verbatim>\<open>ssh\<close> prints \<open>remote\<close> and any other command prints \<open>local\<close>.
\<close>

definition fixed_world :: "int \<Rightarrow> string \<Rightarrow> world" where
  "fixed_world rc text = (\<lambda>tr cmd. Inr \<lparr>returncode = rc, std_out = text\<rparr>)"

definition stamps_world :: "int \<Rightarrow> string \<Rightarrow> string \<Rightarrow> world" where
  "stamps_world rc remote local =
     (\<lambda>tr cmd. Inr \<lparr>returncode = rc,
                     std_out = (if take 4 cmd = ''ssh '' then remote else local)\<rparr>)"

text \<open>Two outputs of \<^verbatim>\<open>stat\<close>, and the command line of a job.\<close>

definition stat_text_may :: string where
  "stat_text_may =
     ''  File: scene.blend'' @ [CHR 0x0A] @ ''Modify: 2017-05-01 10:20:30.000000000 +0000''
     @ [CHR 0x0A]"

definition stat_text_june :: string where
  "stat_text_june =
     ''  File: scene.blend'' @ [CHR 0x0A] @ ''Modify: 2017-06-02 11:22:33.000000000 +0000''
     @ [CHR 0x0A]"

definition sample_args :: "int \<Rightarrow> int \<Rightarrow> string list \<Rightarrow> args" where
  "sample_args first num hosts =
     \<lparr>arg_blend_file = ''scene.blend'', arg_output = Some ''out'', arg_num_frames = Some num,
      arg_start_frame = first, arg_end_frame = None, arg_distribute = hosts, arg_jump = 1\<rparr>"

text \<open>
  The command line launched for a host, given the assignment: the render command of the
  host's frames, run directly for the local sentinel and wrapped in \<^verbatim>\<open>ssh\<close> otherwise.
\<close>

definition launch_cmd_for :: "args \<Rightarrow> (string \<times> int list) list \<Rightarrow> string \<Rightarrow> string \<Rightarrow> bool" where
  "launch_cmd_for a frames_per_host host c \<longleftrightarrow>
     (\<exists>fs cmd. getitem frames_per_host host = Inr fs
        \<and> build_blender (arg_blend_file a) (arg_output a) (Some fs) = Inr cmd
        \<and> c = (if host = ''localhost'' then cmd else ''ssh '' @ host @ '' '' @ dq @ cmd @ dq))"

section \<open>The partitioner is complete and balanced\<close>

lemma fill_take:
  "j \<le> length it \<Longrightarrow> fill j cur it = Inr (cur @ take j it, drop j it)"
proof (induction j arbitrary: cur it)
  case 0
  then show ?case by simp
next
  case (Suc j)
  then obtain x it' where it: "it = x # it'" by (cases it) auto
  with Suc show ?case by simp
qed

text \<open>
  The outer loop, started with \<open>n\<close> rounds to go, a remainder \<open>r\<close> of at most \<open>n\<close> and
  exactly \<open>n * s + r\<close> elements left, never exhausts the iterator: it appends \<open>n\<close> slices
  that together are the elements left, the first \<open>r\<close> of them one longer than \<open>s\<close>.
\<close>

lemma slice_loop_chunks:
  assumes "0 \<le> r" "r \<le> int n" "length it = n * s + nat r"
  shows "\<exists>cs. slice_loop n s r it res = Inr (res @ cs) \<and> length cs = n \<and> concat cs = it \<and>
           (\<forall>i<n. length (cs ! i) = (if int i < r then s + 1 else s))"
  using assms
proof (induction n arbitrary: r it res)
  case 0
  then show ?case by simp
next
  case (Suc n)
  have le: "s \<le> length it" using Suc.prems by simp
  note f = fill_take [OF le, of "[]"]
  show ?case
  proof (cases "r = 0")
    case True
    have len: "length (drop s it) = n * s + nat 0" using Suc.prems True by simp
    from Suc.IH [of 0 "drop s it" "res @ [take s it]", OF _ _ len]
    obtain cs where cs:
      "slice_loop n s 0 (drop s it) (res @ [take s it]) = Inr ((res @ [take s it]) @ cs)"
      "length cs = n" "concat cs = drop s it"
      "\<forall>i<n. length (cs ! i) = (if int i < 0 then s + 1 else s)"
      by auto
    have "slice_loop (Suc n) s r it res = Inr (res @ (take s it # cs))"
      using f cs(1) True by simp
    moreover have "length (take s it # cs) = Suc n" using cs(2) by simp
    moreover have "concat (take s it # cs) = it" using cs(3) by simp
    moreover have "\<forall>i<Suc n. length ((take s it # cs) ! i) = (if int i < r then s + 1 else s)"
    proof (intro allI impI)
      fix i assume "i < Suc n"
      then show "length ((take s it # cs) ! i) = (if int i < r then s + 1 else s)"
        using cs(2,4) True le by (cases i) auto
    qed
    ultimately show ?thesis by blast
  next
    case False
    with Suc.prems have rpos: "0 < r" by simp
    have lt: "s < length it" using Suc.prems rpos by simp
    then obtain x it'' where d: "drop s it = x # it''"
      by (cases "drop s it") auto
    have it'': "it'' = drop (Suc s) it"
      using d by (metis drop_Suc drop_tl list.sel(3) tl_drop)
    have len: "length it'' = n * s + nat (r - 1)"
      using Suc.prems rpos it'' by (simp add: nat_diff_distrib')
    have r1: "0 \<le> r - 1" "r - 1 \<le> int n" using rpos Suc.prems by auto
    let ?c = "take s it @ [x]"
    from Suc.IH [of "r - 1" it'' "res @ [?c]", OF r1 len]
    obtain cs where cs:
      "slice_loop n s (r - 1) it'' (res @ [?c]) = Inr ((res @ [?c]) @ cs)"
      "length cs = n" "concat cs = it''"
      "\<forall>i<n. length (cs ! i) = (if int i < r - 1 then s + 1 else s)"
      by auto
    have "slice_loop (Suc n) s r it res = Inr (res @ (?c # cs))"
      using f cs(1) False d by simp
    moreover have "length (?c # cs) = Suc n" using cs(2) by simp
    moreover have "concat (?c # cs) = it"
      using cs(3) d by (metis append.assoc append_Cons append_Nil append_take_drop_id concat.simps(2))
    moreover have "\<forall>i<Suc n. length ((?c # cs) ! i) = (if int i < r then s + 1 else s)"
    proof (intro allI impI)
      fix i assume "i < Suc n"
      then show "length ((?c # cs) ! i) = (if int i < r then s + 1 else s)"
        using cs(2,4) rpos lt by (cases i) auto
    qed
    ultimately show ?thesis by blast
  qed
qed

lemma length_div_mod_split:
  assumes K: "1 \<le> (K::int)"
  shows "length xs = nat K * nat (int (length xs) div K) + nat (int (length xs) mod K)"
proof -
  obtain k where k: "K = int k"
    using K by (metis nat_0_le order_trans zero_le_one)
  show ?thesis
    unfolding k by (simp add: zdiv_int [symmetric] zmod_int [symmetric] del: zdiv_int zmod_int)
qed

lemma slice_list_chunks:
  assumes K: "1 \<le> K"
  shows "\<exists>cs. slice_list xs K = Inr cs \<and> length cs = nat K \<and> concat cs = xs \<and>
           (\<forall>i<nat K. length (cs ! i) =
              (if int i < int (length xs) mod K then length xs div nat K + 1
               else length xs div nat K))"
proof -
  let ?N = "int (length xs)"
  have r0: "0 \<le> ?N mod K" and rK: "?N mod K \<le> int (nat K)"
    using K by (auto simp: less_imp_le)
  have s: "nat (?N div K) = length xs div nat K"
    using K by (simp add: nat_div_distrib)
  note len = length_div_mod_split [OF K, of xs]
  from slice_loop_chunks [OF r0 rK len, of "[]"]
  obtain cs where cs: "slice_loop (nat K) (nat (?N div K)) (?N mod K) xs [] = Inr cs"
    "length cs = nat K" "concat cs = xs"
    "\<forall>i<nat K. length (cs ! i) =
       (if int i < ?N mod K then nat (?N div K) + 1 else nat (?N div K))"
    by auto
  have "slice_list xs K = slice_loop (nat K) (nat (?N div K)) (?N mod K) xs []"
    using K by (simp add: slice_list_def Let_def)
  with cs show ?thesis
    unfolding s by (intro exI [of _ cs]) simp
qed

text \<open>
  Claim C1 (partition completeness). For every input list and every host count \<open>K\<close> of at
  least one, \<open>slice_list\<close> returns (it does not raise) exactly \<open>K\<close> slices whose
  concatenation, in host order, is the input list: the same elements in the same order,
  nothing repeated and nothing left out.
\<close>

theorem slice_list_complete:
  "1 \<le> K \<Longrightarrow> \<exists>slices. slice_list xs K = Inr slices \<and> length slices = nat K \<and> concat slices = xs"
  using slice_list_chunks [of K xs] by blast

theorem slice_list_complete_witness:
  "(1::int) \<le> 3 \<and> (\<exists>slices. slice_list [1, 2, 3, 4, 5, 6, 7 :: int] 3 = Inr slices
      \<and> length slices = nat 3 \<and> concat slices = [1, 2, 3, 4, 5, 6, 7])"
  using slice_list_complete [of 3 "[1, 2, 3, 4, 5, 6, 7 :: int]"] by simp

text \<open>
  Claim C2 (partition balance, remainder at the front). For every input list of length
  \<open>N\<close> and every host count \<open>K\<close> of at least one, slice \<open>i\<close> of the result has length
  \<open>N div K + 1\<close> when \<open>i < N mod K\<close> and \<open>N div K\<close> otherwise, so that two slices differ
  in length by at most one.
\<close>

theorem slice_list_balanced:
  "1 \<le> K \<Longrightarrow>
   \<exists>slices. slice_list xs K = Inr slices \<and> length slices = nat K \<and>
     (\<forall>i<nat K. length (slices ! i) =
        (if int i < int (length xs) mod K then length xs div nat K + 1
         else length xs div nat K)) \<and>
     (\<forall>i<nat K. \<forall>j<nat K. length (slices ! i) \<le> length (slices ! j) + 1)"
proof -
  assume "1 \<le> K"
  from slice_list_chunks [OF this, of xs]
  obtain cs where cs: "slice_list xs K = Inr cs" "length cs = nat K"
    and len: "\<forall>i<nat K. length (cs ! i) =
        (if int i < int (length xs) mod K then length xs div nat K + 1
         else length xs div nat K)"
    by blast
  have "\<forall>i<nat K. \<forall>j<nat K. length (cs ! i) \<le> length (cs ! j) + 1"
    using len by auto
  with cs len show ?thesis by blast
qed

theorem slice_list_balanced_witness:
  "(1::int) \<le> 3 \<and> (\<exists>slices. slice_list [1, 2, 3, 4, 5, 6, 7 :: int] 3 = Inr slices
     \<and> length (slices ! 0) = 3 \<and> length (slices ! 1) = 2 \<and> length (slices ! 2) = 2)"
proof -
  let ?xs = "[1, 2, 3, 4, 5, 6, 7 :: int]"
  have h: "(1::int) \<le> 3" by simp
  from slice_list_balanced [OF h, of ?xs]
  obtain slices where s: "slice_list ?xs 3 = Inr slices"
    and len: "\<And>i. i < nat 3 \<Longrightarrow> length (slices ! i) =
        (if int i < int (length ?xs) mod 3 then length ?xs div nat 3 + 1
         else length ?xs div nat 3)"
    by blast
  have "length (slices ! 0) = 3" using len [of 0] by simp
  moreover have "length (slices ! 1) = 2" using len [of 1] by simp
  moreover have "length (slices ! 2) = 2" using len [of 2] by simp
  ultimately show ?thesis using s by simp
qed

section \<open>The host assignment\<close>

lemma update_fresh: "k \<notin> fst ` set d \<Longrightarrow> AList.update k v d = d @ [(k, v)]"
  by (induction d) auto

text \<open>Assigning fresh, pairwise distinct keys to a dictionary appends them in order.\<close>

lemma foldl_update_fresh:
  "distinct (map fst ps) \<Longrightarrow> fst ` set ps \<inter> fst ` set d = {} \<Longrightarrow>
   foldl (\<lambda>d (host, fs). AList.update host fs d) d ps = d @ ps"
proof (induction ps arbitrary: d)
  case Nil
  then show ?case by simp
next
  case (Cons p ps)
  obtain k v where p: "p = (k, v)" by (cases p)
  have fresh: "k \<notin> fst ` set d" using Cons.prems p by auto
  have "fst ` set ps \<inter> fst ` set (d @ [(k, v)]) = {}"
    using Cons.prems p by (auto simp: image_iff)
  moreover have "distinct (map fst ps)" using Cons.prems by simp
  ultimately have
    "foldl (\<lambda>d (host, fs). AList.update host fs d) (d @ [(k, v)]) ps = (d @ [(k, v)]) @ ps"
    by (rule Cons.IH [rotated])
  then show ?case using p fresh by (simp add: update_fresh)
qed

lemma distinct_concat_nth_disjoint:
  "distinct (concat cs) \<Longrightarrow> i < j \<Longrightarrow> j < length cs \<Longrightarrow> set (cs ! i) \<inter> set (cs ! j) = {}"
proof (induction cs arbitrary: i j)
  case Nil
  then show ?case by simp
next
  case (Cons c cs)
  from Cons.prems(2) obtain j' where j: "j = Suc j'" by (cases j) auto
  have d: "distinct (concat cs)" and dis: "set c \<inter> set (concat cs) = {}"
    using Cons.prems(1) by auto
  show ?case
  proof (cases i)
    case 0
    have "cs ! j' \<in> set cs" using Cons.prems(3) j by simp
    then have "set (cs ! j') \<subseteq> set (concat cs)" by auto
    with dis 0 j show ?thesis by auto
  next
    case (Suc i')
    with Cons.IH [OF d, of i' j'] Cons.prems j show ?thesis by simp
  qed
qed

text \<open>A frame range never repeats a frame.\<close>

lemma py_range_distinct: "py_range start stop step = Inr fs \<Longrightarrow> distinct fs"
  by (auto simp: py_range_def distinct_map inj_on_def split: if_splits)

text \<open>
  Claim C3 (host assignment), as amended: for every list of frames without repetition,
  as every frame range is, and every non-empty list of pairwise distinct hosts,
  \<open>split_frames_per_host\<close> returns a mapping whose keys are the listed hosts in the
  order given, whose slices concatenated in that order are the frame list, and whose
  slices are pairwise disjoint.
\<close>

theorem split_frames_per_host_partition:
  assumes "hosts \<noteq> []" and "distinct hosts" and "distinct frames"
  shows "\<exists>d. split_frames_per_host frames hosts = Inr d \<and> map fst d = hosts \<and>
           concat (map snd d) = frames \<and>
           (\<forall>i<length d. \<forall>j<length d. i \<noteq> j \<longrightarrow> set (snd (d ! i)) \<inter> set (snd (d ! j)) = {})"
proof -
  have K: "1 \<le> int (length hosts)" using assms(1) by (cases hosts) auto
  from slice_list_chunks [OF K, of frames]
  obtain cs where cs: "slice_list frames (int (length hosts)) = Inr cs"
    "length cs = length hosts" "concat cs = frames"
    by auto
  let ?d = "zip hosts cs"
  have keys: "map fst ?d = hosts" and vals: "map snd ?d = cs"
    using cs(2) by simp_all
  have "foldl (\<lambda>d (host, fs). AList.update host fs d) [] ?d = [] @ ?d"
    by (rule foldl_update_fresh) (simp_all add: keys assms(2))
  then have d: "split_frames_per_host frames hosts = Inr ?d"
    by (simp add: split_frames_per_host_def cs(1))
  have dc: "distinct (concat cs)" using cs(3) assms(3) by simp
  have disj: "\<forall>i<length ?d. \<forall>j<length ?d. i \<noteq> j \<longrightarrow>
      set (snd (?d ! i)) \<inter> set (snd (?d ! j)) = {}"
  proof (intro allI impI)
    fix i j assume ij: "i < length ?d" "j < length ?d" "i \<noteq> j"
    then have i: "i < length cs" and j: "j < length cs" by simp_all
    have "set (cs ! i) \<inter> set (cs ! j) = {}"
    proof (cases "i < j")
      case True
      then show ?thesis using distinct_concat_nth_disjoint [OF dc True j] by simp
    next
      case False
      with ij(3) have "j < i" by simp
      then show ?thesis using distinct_concat_nth_disjoint [OF dc _ i, of j] by auto
    qed
    then show "set (snd (?d ! i)) \<inter> set (snd (?d ! j)) = {}"
      using ij cs(2) by simp
  qed
  show ?thesis
    using d keys vals cs(3) disj by (intro exI [of _ ?d]) simp
qed

theorem split_frames_per_host_partition_witness:
  "[''localhost'', ''worker1''] \<noteq> [] \<and> distinct [''localhost'', ''worker1'']
   \<and> distinct [1, 2, 3, 4, 5, 6, 7, 8, 9, 10 :: int]
   \<and> (\<exists>d. split_frames_per_host [1, 2, 3, 4, 5, 6, 7, 8, 9, 10 :: int] [''localhost'', ''worker1'']
            = Inr d
        \<and> map fst d = [''localhost'', ''worker1'']
        \<and> concat (map snd d) = [1, 2, 3, 4, 5, 6, 7, 8, 9, 10]
        \<and> set (snd (d ! 0)) \<inter> set (snd (d ! 1)) = {})"
proof -
  let ?hosts = "[''localhost'', ''worker1'']"
  let ?frames = "[1, 2, 3, 4, 5, 6, 7, 8, 9, 10 :: int]"
  have h1: "?hosts \<noteq> []" and h2: "distinct ?hosts" and h3: "distinct ?frames" by simp_all
  from split_frames_per_host_partition [OF h1 h2 h3]
  obtain d where d: "split_frames_per_host ?frames ?hosts = Inr d \<and> map fst d = ?hosts \<and>
      concat (map snd d) = ?frames \<and>
      (\<forall>i<length d. \<forall>j<length d. i \<noteq> j \<longrightarrow> set (snd (d ! i)) \<inter> set (snd (d ! j)) = {})" ..
  then have keys: "map fst d = ?hosts" by (elim conjE)
  have "length (map fst d) = 2" unfolding keys by simp
  then have len: "length d = 2" by simp
  from d have "\<forall>i<length d. \<forall>j<length d. i \<noteq> j \<longrightarrow> set (snd (d ! i)) \<inter> set (snd (d ! j)) = {}"
    by (elim conjE)
  then have "set (snd (d ! 0)) \<inter> set (snd (d ! 1)) = {}"
    if "0 < length d" and "1 < length d" and "(0::nat) \<noteq> 1"
    using that by blast
  with len have disj: "set (snd (d ! 0)) \<inter> set (snd (d ! 1)) = {}" by simp
  from d have d1: "split_frames_per_host ?frames ?hosts = Inr d" by (elim conjE)
  from d have d3: "concat (map snd d) = ?frames" by (elim conjE)
  have "\<exists>d. split_frames_per_host ?frames ?hosts = Inr d \<and> map fst d = ?hosts \<and>
      concat (map snd d) = ?frames \<and> set (snd (d ! 0)) \<inter> set (snd (d ! 1)) = {}"
    using d1 keys d3 disj by (intro exI [of _ d] conjI)
  with h1 h2 h3 show ?thesis by (intro conjI)
qed

text \<open>
  The claim as stated, for every non-empty host list, fails when a host is listed twice:
  the second assignment to the same key replaces the first, and the slice of the first
  is in no entry of the mapping.
\<close>

theorem split_frames_per_host_counterexample:
  "split_frames_per_host [1, 2 :: int] [''render1'', ''render1''] = Inr [(''render1'', [2])]
   \<and> concat (map snd [(''render1'', [2 :: int])]) \<noteq> [1, 2]"
  by (simp add: split_frames_per_host_def slice_list_def eval_nat_numeral)

section \<open>The render command\<close>

text \<open>
  Claim C10 (empty but present frame list). For the empty list of frames
  \<open>build_frames\<close> gives the bare flag \<^verbatim>\<open>-f \<close> with nothing after it, which is not
  what it gives for \<^verbatim>\<open>None\<close>, the empty text; the command built for a host with no
  frames ends with the bare flag.
\<close>

theorem build_frames_empty_list:
  "build_frames (Some []) = [(''frames'', ''-f '')]
   \<and> build_frames None = [(''frames'', '''')]
   \<and> build_frames (Some []) \<noteq> build_frames None
   \<and> build_blender blend_file (Some out) (Some []) =
       Inr (''blender -b '' @ blend_file @ '' -o '' @ path_join out ''####.png'' @ '' -f '')"
  by (simp add: build_frames_def build_blender_def build_output_def dict_update_def getitem_def)

text \<open>
  Claim C7 (the built command), as amended: for every input file, output directory and
  optional frame list the command is \<^verbatim>\<open>blender -b\<close>, the input file, \<^verbatim>\<open>-o\<close> with the
  hard-coded template \<^verbatim>\<open>####.png\<close> joined to the output directory as a path (a
  separator is inserted unless the directory is empty or already ends with one), and
  then the flag \<^verbatim>\<open>-f\<close> with the frames separated by commas when a frame list is given,
  and nothing when it is \<^verbatim>\<open>None\<close>.
\<close>

theorem build_blender_command:
  "build_blender blend_file (Some out) frames =
     Inr (''blender -b '' @ blend_file @ '' -o ''
          @ (if out = [] \<or> last out = CHR ''/'' then out @ ''####.png'' else out @ ''/####.png'')
          @ '' ''
          @ (case frames of None \<Rightarrow> [] | Some fs \<Rightarrow> ''-f '' @ join '','' (map str_int fs)))"
  by (simp add: build_frames_def build_blender_def build_output_def dict_update_def getitem_def
      path_join_def split: option.split)

text \<open>
  The template is not always the output directory followed by \<^verbatim>\<open>/####.png\<close>: a
  directory written with its final separator gets none added.
\<close>

theorem build_blender_template_counterexample:
  "build_blender ''scene.blend'' (Some ''frames/'') (Some [1, 2]) =
     Inr ''blender -b scene.blend -o frames/####.png -f 1,2''
   \<and> build_blender ''scene.blend'' (Some ''frames/'') (Some [1, 2]) \<noteq>
     Inr (''blender -b scene.blend -o '' @ ''frames/'' @ ''/####.png'' @ '' -f 1,2'')"
  by (simp add: build_frames_def build_blender_def build_output_def dict_update_def getitem_def
      path_join_def str_int_def str_nat.simps)

section \<open>The timestamp pattern\<close>

text \<open>
  A match at a position is a prefix of the text there whose characters fit the pattern
  one by one.
\<close>

lemma match_here_iff:
  "match_here ps s = Some m \<longleftrightarrow> (\<exists>post. s = m @ post \<and> list_all2 pat_ok ps m)"
proof (induction ps s arbitrary: m rule: match_here.induct)
  case (1 s)
  then show ?case by auto
next
  case (2 p ps)
  then show ?case by auto
next
  case (3 p ps c cs)
  show ?case
  proof (cases "pat_ok p c")
    case True
    then show ?thesis using 3 by (cases m) (auto simp: list_all2_Cons1)
  next
    case False
    then show ?thesis by (cases m) (auto simp: list_all2_Cons1)
  qed
qed

lemma match_here_None_iff:
  "match_here ps s = None \<longleftrightarrow> \<not> (\<exists>m post. s = m @ post \<and> list_all2 pat_ok ps m)"
proof -
  have "match_here ps s = None \<longleftrightarrow> (\<forall>m. match_here ps s \<noteq> Some m)"
    by (cases "match_here ps s") auto
  then show ?thesis unfolding match_here_iff by blast
qed

text \<open>
  The search finds a match that starts a line, and finds none only when no line starts
  with one. \<open>bol\<close> tells whether the text searched starts at the beginning of a line.
\<close>

lemma search_lines_Some:
  "search_lines ps bol s = Some m \<Longrightarrow>
   \<exists>pre post. s = pre @ m @ post \<and> (if pre = [] then bol else last pre = CHR 0x0A)
     \<and> list_all2 pat_ok ps m"
proof (induction s arbitrary: bol)
  case Nil
  then have "bol" and "match_here ps [] = Some m" by (auto split: if_splits)
  then have "list_all2 pat_ok ps m" and "m = []" by (auto simp: match_here_iff)
  with \<open>bol\<close> show ?case by (intro exI [of _ "[]"]) simp
next
  case (Cons c cs)
  show ?case
  proof (cases "bol \<and> match_here ps (c # cs) \<noteq> None")
    case True
    with Cons.prems have mh: "match_here ps (c # cs) = Some m" by auto
    then obtain post where "c # cs = m @ post" "list_all2 pat_ok ps m"
      by (auto simp: match_here_iff)
    with True show ?thesis by (intro exI [of _ "[]"] exI [of _ post]) simp
  next
    case False
    with Cons.prems have "search_lines ps (c = CHR 0x0A) cs = Some m"
      by (auto split: if_splits option.splits)
    from Cons.IH [OF this] obtain pre post where
      p: "cs = pre @ m @ post" "if pre = [] then c = CHR 0x0A else last pre = CHR 0x0A"
      "list_all2 pat_ok ps m"
      by blast
    have "c # cs = (c # pre) @ m @ post" using p(1) by simp
    moreover have "last (c # pre) = CHR 0x0A" using p(2) by (auto split: if_splits)
    ultimately show ?thesis using p(3) by (intro exI [of _ "c # pre"] exI [of _ post]) simp
  qed
qed

lemma search_lines_None:
  assumes "search_lines ps bol s = None"
    and "s = pre @ m @ post" and "if pre = [] then bol else last pre = CHR 0x0A"
  shows "\<not> list_all2 pat_ok ps m"
  using assms
proof (induction s arbitrary: bol pre)
  case Nil
  then have "pre = []" "m = []" "post = []" by simp_all
  with Nil have "match_here ps [] = None" by (auto split: if_splits)
  then show ?case using \<open>m = []\<close> by (simp add: match_here_None_iff)
next
  case (Cons c cs)
  from Cons.prems(1) have rest: "search_lines ps (c = CHR 0x0A) cs = None"
    and here: "bol \<longrightarrow> match_here ps (c # cs) = None"
    by (auto split: if_splits option.splits)
  show ?case
  proof (cases pre)
    case Nil
    with Cons.prems have "bol" "c # cs = m @ post" by simp_all
    with here show ?thesis by (auto simp: match_here_None_iff)
  next
    case (Cons c' pre')
    with Cons.prems(2) have c: "c' = c" and cs: "cs = pre' @ m @ post" by simp_all
    have "if pre' = [] then c = CHR 0x0A else last pre' = CHR 0x0A"
      using Cons.prems(3) Cons c by (auto split: if_splits)
    from Cons.IH [OF rest cs this] show ?thesis .
  qed
qed

text \<open>The pattern of the source, piece by piece, is the shape in words.\<close>

lemma list_all2_lits: "list_all2 pat_ok (map Lit l) us \<longleftrightarrow> us = l"
  by (induction l arbitrary: us) (auto simp: list_all2_Cons1)

lemma list_all2_digits:
  "list_all2 pat_ok (replicate n Digit) us \<longleftrightarrow> length us = n \<and> (\<forall>c \<in> set us. is_digit c)"
  by (induction n arbitrary: us) (auto simp: list_all2_Cons1 length_Suc_conv)

lemma digits_then:
  "list_all2 pat_ok (replicate n Digit @ ps) m \<longleftrightarrow>
   (\<exists>u v. m = u @ v \<and> length u = n \<and> (\<forall>c \<in> set u. is_digit c) \<and> list_all2 pat_ok ps v)"
proof
  assume "list_all2 pat_ok (replicate n Digit @ ps) m"
  then obtain u v where "m = u @ v" "list_all2 pat_ok (replicate n Digit) u"
    "list_all2 pat_ok ps v"
    by (auto simp: list_all2_append1)
  then show "\<exists>u v. m = u @ v \<and> length u = n \<and> (\<forall>c \<in> set u. is_digit c) \<and> list_all2 pat_ok ps v"
    by (auto simp: list_all2_digits)
next
  assume "\<exists>u v. m = u @ v \<and> length u = n \<and> (\<forall>c \<in> set u. is_digit c) \<and> list_all2 pat_ok ps v"
  then obtain u v where m: "m = u @ v" and u: "list_all2 pat_ok (replicate n Digit) u"
    and v: "list_all2 pat_ok ps v"
    by (auto simp: list_all2_digits)
  show "list_all2 pat_ok (replicate n Digit @ ps) m"
    unfolding m using u v by (rule list_all2_appendI)
qed

lemma lits_then:
  "list_all2 pat_ok (map Lit l @ ps) m \<longleftrightarrow> (\<exists>v. m = l @ v \<and> list_all2 pat_ok ps v)"
proof
  assume "list_all2 pat_ok (map Lit l @ ps) m"
  then obtain u v where "m = u @ v" "list_all2 pat_ok (map Lit l) u" "list_all2 pat_ok ps v"
    by (auto simp: list_all2_append1)
  then show "\<exists>v. m = l @ v \<and> list_all2 pat_ok ps v"
    by (auto simp: list_all2_lits)
next
  assume "\<exists>v. m = l @ v \<and> list_all2 pat_ok ps v"
  then obtain v where m: "m = l @ v" and v: "list_all2 pat_ok ps v" by blast
  have l: "list_all2 pat_ok (map Lit l) l" by (simp add: list_all2_lits)
  show "list_all2 pat_ok (map Lit l @ ps) m"
    unfolding m using l v by (rule list_all2_appendI)
qed

lemma lit_then:
  "list_all2 pat_ok (Lit a # ps) m \<longleftrightarrow> (\<exists>v. m = a # v \<and> list_all2 pat_ok ps v)"
  by (auto simp: list_all2_Cons1)

text \<open>A group of digits followed by a separator and the rest of the pattern.\<close>

lemma group_then:
  "list_all2 pat_ok (replicate n Digit @ Lit a # ps) m \<longleftrightarrow>
   (\<exists>u v. m = u @ a # v \<and> length u = n \<and> (\<forall>c \<in> set u. is_digit c) \<and> list_all2 pat_ok ps v)"
  unfolding digits_then lit_then by blast

lemma modify_pattern_unfold:
  "modify_pattern =
     map Lit ''Modify: '' @ replicate 4 Digit @ Lit CHR ''-'' # replicate 2 Digit
     @ Lit CHR ''-'' # replicate 2 Digit @ Lit CHR '' '' # replicate 2 Digit
     @ Lit CHR '':'' # replicate 2 Digit @ Lit CHR '':'' # replicate 2 Digit"
  unfolding modify_pattern_def append_Cons append_Nil ..

lemma modify_pattern_shape: "list_all2 pat_ok modify_pattern m \<longleftrightarrow> timestamp_shape m"
proof
  assume "list_all2 pat_ok modify_pattern m"
  then obtain m1 where m1: "m = ''Modify: '' @ m1"
    and r1: "list_all2 pat_ok (replicate 4 Digit @ Lit CHR ''-'' # replicate 2 Digit
     @ Lit CHR ''-'' # replicate 2 Digit @ Lit CHR '' '' # replicate 2 Digit
     @ Lit CHR '':'' # replicate 2 Digit @ Lit CHR '':'' # replicate 2 Digit) m1"
    unfolding modify_pattern_unfold lits_then by blast
  from r1 obtain y m2 where m2: "m1 = y @ CHR ''-'' # m2" "length y = 4" "\<forall>c \<in> set y. is_digit c"
    and r2: "list_all2 pat_ok (replicate 2 Digit
     @ Lit CHR ''-'' # replicate 2 Digit @ Lit CHR '' '' # replicate 2 Digit
     @ Lit CHR '':'' # replicate 2 Digit @ Lit CHR '':'' # replicate 2 Digit) m2"
    unfolding group_then by blast
  from r2 obtain mo m3 where m3: "m2 = mo @ CHR ''-'' # m3" "length mo = 2"
      "\<forall>c \<in> set mo. is_digit c"
    and r3: "list_all2 pat_ok (replicate 2 Digit @ Lit CHR '' '' # replicate 2 Digit
     @ Lit CHR '':'' # replicate 2 Digit @ Lit CHR '':'' # replicate 2 Digit) m3"
    unfolding group_then by blast
  from r3 obtain d m4 where m4: "m3 = d @ CHR '' '' # m4" "length d = 2"
      "\<forall>c \<in> set d. is_digit c"
    and r4: "list_all2 pat_ok (replicate 2 Digit
     @ Lit CHR '':'' # replicate 2 Digit @ Lit CHR '':'' # replicate 2 Digit) m4"
    unfolding group_then by blast
  from r4 obtain h m5 where m5: "m4 = h @ CHR '':'' # m5" "length h = 2"
      "\<forall>c \<in> set h. is_digit c"
    and r5: "list_all2 pat_ok (replicate 2 Digit @ Lit CHR '':'' # replicate 2 Digit) m5"
    unfolding group_then by blast
  from r5 obtain mi s where m6: "m5 = mi @ CHR '':'' # s" "length mi = 2"
      "\<forall>c \<in> set mi. is_digit c"
    and r6: "list_all2 pat_ok (replicate 2 Digit) s"
    unfolding group_then by blast
  from r6 have s: "length s = 2" "\<forall>c \<in> set s. is_digit c"
    by (simp_all add: list_all2_digits)
  have "m = ''Modify: '' @ y @ ''-'' @ mo @ ''-'' @ d @ '' '' @ h @ '':'' @ mi @ '':'' @ s"
    unfolding m1 m2(1) m3(1) m4(1) m5(1) m6(1) by simp
  moreover have "\<forall>c \<in> set (y @ mo @ d @ h @ mi @ s). is_digit c"
    using m2(3) m3(3) m4(3) m5(3) m6(3) s(2) by auto
  ultimately show "timestamp_shape m"
    unfolding timestamp_shape_def
    using m2(2) m3(2) m4(2) m5(2) m6(2) s(1) by blast
next
  assume "timestamp_shape m"
  then obtain y mo d h mi s where
    m: "m = ''Modify: '' @ y @ ''-'' @ mo @ ''-'' @ d @ '' '' @ h @ '':'' @ mi @ '':'' @ s"
    and len: "length y = 4" "length mo = 2" "length d = 2" "length h = 2" "length mi = 2"
      "length s = 2"
    and dig: "\<forall>c \<in> set (y @ mo @ d @ h @ mi @ s). is_digit c"
    unfolding timestamp_shape_def by blast
  have r6: "list_all2 pat_ok (replicate 2 Digit) s"
    using len dig by (simp add: list_all2_digits)
  have r5: "list_all2 pat_ok (replicate 2 Digit @ Lit CHR '':'' # replicate 2 Digit)
      (mi @ CHR '':'' # s)"
    unfolding group_then using r6 len dig by auto
  have r4: "list_all2 pat_ok (replicate 2 Digit
     @ Lit CHR '':'' # replicate 2 Digit @ Lit CHR '':'' # replicate 2 Digit)
      (h @ CHR '':'' # mi @ CHR '':'' # s)"
    unfolding group_then [where ps = "replicate 2 Digit @ Lit CHR '':'' # replicate 2 Digit"]
    using r5 len dig by auto
  have r3: "list_all2 pat_ok (replicate 2 Digit @ Lit CHR '' '' # replicate 2 Digit
     @ Lit CHR '':'' # replicate 2 Digit @ Lit CHR '':'' # replicate 2 Digit)
      (d @ CHR '' '' # h @ CHR '':'' # mi @ CHR '':'' # s)"
    unfolding group_then [where a = "CHR '' ''"]
    using r4 len dig by auto
  have r2: "list_all2 pat_ok (replicate 2 Digit
     @ Lit CHR ''-'' # replicate 2 Digit @ Lit CHR '' '' # replicate 2 Digit
     @ Lit CHR '':'' # replicate 2 Digit @ Lit CHR '':'' # replicate 2 Digit)
      (mo @ CHR ''-'' # d @ CHR '' '' # h @ CHR '':'' # mi @ CHR '':'' # s)"
    unfolding group_then [where a = "CHR ''-''"]
    using r3 len dig by auto
  have r1: "list_all2 pat_ok (replicate 4 Digit @ Lit CHR ''-'' # replicate 2 Digit
     @ Lit CHR ''-'' # replicate 2 Digit @ Lit CHR '' '' # replicate 2 Digit
     @ Lit CHR '':'' # replicate 2 Digit @ Lit CHR '':'' # replicate 2 Digit)
      (y @ CHR ''-'' # mo @ CHR ''-'' # d @ CHR '' '' # h @ CHR '':'' # mi @ CHR '':'' # s)"
    unfolding group_then [where n = 4]
    using r2 len dig by auto
  have "m = ''Modify: ''
      @ (y @ CHR ''-'' # mo @ CHR ''-'' # d @ CHR '' '' # h @ CHR '':'' # mi @ CHR '':'' # s)"
    unfolding m by simp
  with r1 show "list_all2 pat_ok modify_pattern m"
    unfolding modify_pattern_unfold lits_then by blast
qed

lemma regex_search_None_iff: "regex_search out = None \<longleftrightarrow> \<not> has_timestamp_line out"
proof
  assume none: "regex_search out = None"
  show "\<not> has_timestamp_line out"
  proof
    assume "has_timestamp_line out"
    then obtain pre m post where o: "out = pre @ m @ post"
      and p: "pre = [] \<or> last pre = CHR 0x0A" and m: "timestamp_shape m"
      unfolding has_timestamp_line_def by blast
    from p have "if pre = [] then True else last pre = CHR 0x0A" by auto
    from search_lines_None [OF none [unfolded regex_search_def] o this] m
    show False by (simp add: modify_pattern_shape)
  qed
next
  assume no: "\<not> has_timestamp_line out"
  show "regex_search out = None"
  proof (rule ccontr)
    assume "regex_search out \<noteq> None"
    then obtain m where "search_lines modify_pattern True out = Some m"
      by (auto simp: regex_search_def)
    from search_lines_Some [OF this] obtain pre post where
      "out = pre @ m @ post" "if pre = [] then True else last pre = CHR 0x0A"
      "list_all2 pat_ok modify_pattern m"
      by blast
    then have "has_timestamp_line out"
      unfolding has_timestamp_line_def modify_pattern_shape
      by (intro exI [of _ pre] exI [of _ m] exI [of _ post]) (auto split: if_splits)
    with no show False by simp
  qed
qed

lemma regex_search_Some_shape: "regex_search out = Some m \<Longrightarrow> timestamp_shape m"
  using search_lines_Some [of modify_pattern True out m]
  by (auto simp: regex_search_def modify_pattern_shape)

section \<open>The timestamp query and the copy to a remote host\<close>

lemma get_file_mod_date_trace:
  "snd (get_file_mod_date w file_name host tr) = tr @ [Communicate (stat_cmd file_name host)]"
  by (simp add: get_file_mod_date_def Let_def split: sum.split option.split)

text \<open>
  Claim C5 (timestamp parse failure). Whenever the query command runs and its output has
  no line that starts with a text of the shape \<^verbatim>\<open>Modify: YYYY-MM-DD HH:MM:SS\<close>,
  \<open>get_file_mod_date\<close> raises and returns no value; the exception is the
  \<^verbatim>\<open>TypeError\<close> of the subscript on \<^verbatim>\<open>None\<close>. When the output has such a line, a
  text of this shape is returned.
\<close>

theorem get_file_mod_date_no_match:
  assumes "w tr (stat_cmd file_name host) = Inr p"
  shows "(\<not> has_timestamp_line (std_out p) \<longrightarrow>
            fst (get_file_mod_date w file_name host tr) = Inl TypeError)
       \<and> (has_timestamp_line (std_out p) \<longrightarrow>
            (\<exists>m. fst (get_file_mod_date w file_name host tr) = Inr m \<and> timestamp_shape m))"
proof (cases "regex_search (std_out p)")
  case None
  then have "\<not> has_timestamp_line (std_out p)" by (simp add: regex_search_None_iff)
  moreover have "fst (get_file_mod_date w file_name host tr) = Inl TypeError"
    using assms None by (simp add: get_file_mod_date_def Let_def)
  ultimately show ?thesis by simp
next
  case (Some m)
  then have "has_timestamp_line (std_out p)"
    using regex_search_None_iff [of "std_out p"] by simp
  moreover have "fst (get_file_mod_date w file_name host tr) = Inr m"
    using assms Some by (simp add: get_file_mod_date_def Let_def)
  moreover have "timestamp_shape m" using Some by (rule regex_search_Some_shape)
  ultimately show ?thesis by simp
qed

theorem get_file_mod_date_no_match_witness:
  "fixed_world 0 ''Modify: 2017-05-01T10:20:30'' [] (stat_cmd ''scene.blend'' ''worker1'')
     = Inr \<lparr>returncode = 0, std_out = ''Modify: 2017-05-01T10:20:30''\<rparr>
   \<and> \<not> has_timestamp_line ''Modify: 2017-05-01T10:20:30''
   \<and> fst (get_file_mod_date (fixed_world 0 ''Modify: 2017-05-01T10:20:30'') ''scene.blend''
            ''worker1'' []) = Inl TypeError"
proof -
  let ?text = "''Modify: 2017-05-01T10:20:30''"
  let ?p = "\<lparr>returncode = 0, std_out = ?text\<rparr>"
  have h: "fixed_world 0 ?text [] (stat_cmd ''scene.blend'' ''worker1'') = Inr ?p"
    by (simp add: fixed_world_def)
  have "regex_search ?text = None" by code_simp
  then have no: "\<not> has_timestamp_line ?text" by (simp add: regex_search_None_iff)
  from get_file_mod_date_no_match [of "fixed_world 0 ?text" "[]" "''scene.blend''" "''worker1''" ?p,
      OF h] no
  have "fst (get_file_mod_date (fixed_world 0 ?text) ''scene.blend'' ''worker1'' []) = Inl TypeError"
    by simp
  with h no show ?thesis by (intro conjI)
qed

text \<open>
  Claim C6 (sync skip). In a dispatch to a host, when the two queries return the remote
  and the local timestamp, the calls that \<open>remote_blender\<close> adds to the trace contain a
  \<open>shell\<close> command exactly when the two strings differ, and that command is the copy
  of the input file to the host; when the strings are equal no transfer is issued.
\<close>

theorem remote_blender_sync:
  assumes "fst (get_file_mod_date w blend_file host tr) = Inr remote_date"
    and "fst (get_file_mod_date w blend_file ''localhost''
               (tr @ [Communicate (stat_cmd blend_file host)])) = Inr local_date"
  shows "Shell c \<in> set (drop (length tr) (snd (remote_blender w host blend_file output frames tr)))
         \<longleftrightarrow> remote_date \<noteq> local_date \<and> c = ''scp -p '' @ blend_file @ '' '' @ host @ '':''"
proof -
  let ?t1 = "tr @ [Communicate (stat_cmd blend_file host)]"
  let ?t2 = "?t1 @ [Communicate (stat_cmd blend_file ''localhost'')]"
  have g1: "get_file_mod_date w blend_file host tr = (Inr remote_date, ?t1)"
    using assms(1) get_file_mod_date_trace [of w blend_file host tr]
    by (cases "get_file_mod_date w blend_file host tr") simp
  have g2: "get_file_mod_date w blend_file ''localhost'' ?t1 = (Inr local_date, ?t2)"
    using assms(2) get_file_mod_date_trace [of w blend_file "''localhost''" ?t1]
    by (cases "get_file_mod_date w blend_file ''localhost'' ?t1") simp
  show ?thesis
  proof (cases "remote_date = local_date")
    case True
    then show ?thesis
      by (simp add: remote_blender_def g1 g2 Let_def split: sum.split)
  next
    case False
    then show ?thesis
      by (auto simp: remote_blender_def g1 g2 Let_def copy_to_host_def shell_def
          split: sum.split)
  qed
qed

theorem remote_blender_sync_witness:
  "fst (get_file_mod_date (stamps_world 0 stat_text_june stat_text_may) ''scene.blend''
          ''worker1'' []) = Inr ''Modify: 2017-06-02 11:22:33''
   \<and> fst (get_file_mod_date (stamps_world 0 stat_text_june stat_text_may) ''scene.blend''
          ''localhost'' ([] @ [Communicate (stat_cmd ''scene.blend'' ''worker1'')]))
       = Inr ''Modify: 2017-05-01 10:20:30''
   \<and> Shell ''scp -p scene.blend worker1:''
       \<in> set (snd (remote_blender (stamps_world 0 stat_text_june stat_text_may) ''worker1''
                     ''scene.blend'' (Some ''out'') (Some [1, 2]) []))
   \<and> fst (get_file_mod_date (stamps_world 0 stat_text_may stat_text_may) ''scene.blend''
          ''worker1'' []) = Inr ''Modify: 2017-05-01 10:20:30''
   \<and> fst (get_file_mod_date (stamps_world 0 stat_text_may stat_text_may) ''scene.blend''
          ''localhost'' ([] @ [Communicate (stat_cmd ''scene.blend'' ''worker1'')]))
       = Inr ''Modify: 2017-05-01 10:20:30''
   \<and> Shell ''scp -p scene.blend worker1:''
       \<notin> set (snd (remote_blender (stamps_world 0 stat_text_may stat_text_may) ''worker1''
                     ''scene.blend'' (Some ''out'') (Some [1, 2]) []))"
proof -
  let ?w = "stamps_world 0 stat_text_june stat_text_may"
  let ?v = "stamps_world 0 stat_text_may stat_text_may"
  have h1: "fst (get_file_mod_date ?w ''scene.blend'' ''worker1'' [])
      = Inr ''Modify: 2017-06-02 11:22:33''"
    by code_simp
  have h2: "fst (get_file_mod_date ?w ''scene.blend'' ''localhost''
      ([] @ [Communicate (stat_cmd ''scene.blend'' ''worker1'')]))
      = Inr ''Modify: 2017-05-01 10:20:30''"
    by code_simp
  from remote_blender_sync [OF h1 h2, of "''scp -p scene.blend worker1:''" "Some ''out''"
      "Some [1, 2]"]
  have c: "Shell ''scp -p scene.blend worker1:''
       \<in> set (snd (remote_blender ?w ''worker1'' ''scene.blend'' (Some ''out'') (Some [1, 2]) []))"
    by simp
  have k1: "fst (get_file_mod_date ?v ''scene.blend'' ''worker1'' [])
      = Inr ''Modify: 2017-05-01 10:20:30''"
    by code_simp
  have k2: "fst (get_file_mod_date ?v ''scene.blend'' ''localhost''
      ([] @ [Communicate (stat_cmd ''scene.blend'' ''worker1'')]))
      = Inr ''Modify: 2017-05-01 10:20:30''"
    by code_simp
  from remote_blender_sync [OF k1 k2, of "''scp -p scene.blend worker1:''" "Some ''out''"
      "Some [1, 2]"]
  have n: "Shell ''scp -p scene.blend worker1:''
       \<notin> set (snd (remote_blender ?v ''worker1'' ''scene.blend'' (Some ''out'') (Some [1, 2]) []))"
    by simp
  from h1 h2 c k1 k2 n show ?thesis by (intro conjI)
qed

section \<open>The dispatcher in a cooperative world\<close>

lemma launched_append: "launched (xs @ ys) = launched xs @ launched ys"
  by (induction xs rule: launched.induct) simp_all

lemma waits_append: "waits (xs @ ys) = waits xs @ waits ys"
  by (induction xs rule: waits.induct) simp_all

lemma handles_append: "handles n (xs @ ys) = handles n xs @ handles (n + length xs) ys"
  by (induction n xs rule: handles.induct) simp_all

lemma handles_no_launch: "launched xs = [] \<Longrightarrow> handles n xs = []"
  by (induction n xs rule: handles.induct) simp_all


lemma wait_loop_trace: "wait_loop processes tr = tr @ map Wait processes"
  by (induction processes arbitrary: tr) simp_all

lemma launched_waits: "launched (map Wait ps) = []"
  by (induction ps) simp_all

lemma waits_map_Wait: "waits (map Wait ps) = ps"
  by (induction ps) simp_all

lemma shell_coop: "cooperative w \<Longrightarrow> shell w c tr = (Inr (), tr @ [Shell c])"
proof -
  assume "cooperative w"
  then obtain p where "w tr c = Inr p" unfolding cooperative_def by blast
  then show ?thesis by (simp add: shell_def)
qed

lemma get_file_mod_date_coop:
  assumes "cooperative w"
  shows "\<exists>m. get_file_mod_date w f h tr = (Inr m, tr @ [Communicate (stat_cmd f h)])"
proof -
  from assms obtain p where p: "w tr (stat_cmd f h) = Inr p" unfolding cooperative_def by blast
  with assms have "regex_search (std_out p) \<noteq> None" unfolding cooperative_def by blast
  then obtain m where "regex_search (std_out p) = Some m" by auto
  with p show ?thesis by (simp add: get_file_mod_date_def Let_def)
qed

lemma build_blender_ok: "\<exists>cmd. build_blender blend_file (Some out) frames = Inr cmd"
  by (simp add: build_frames_def build_blender_def build_output_def dict_update_def getitem_def
      split: option.split)

lemma blender_coop:
  assumes "cooperative w" and "build_blender bf out fs = Inr cmd"
  shows "blender w bf out fs tr = (Inr (length tr), tr @ [Popen cmd])"
proof -
  from assms(1) obtain p where "w tr cmd = Inr p" unfolding cooperative_def by blast
  with assms(2) show ?thesis by (simp add: blender_def)
qed

text \<open>
  A dispatch to a remote host makes its queries and perhaps a copy, none of them a launch
  or a wait, and then launches the wrapped command.
\<close>

lemma remote_blender_coop:
  assumes "cooperative w" and "build_blender bf out fs = Inr cmd"
  shows "\<exists>pre. remote_blender w host bf out fs tr =
           (Inr (length tr + length pre),
            tr @ pre @ [Popen (''ssh '' @ host @ '' '' @ dq @ cmd @ dq)])
         \<and> launched pre = [] \<and> waits pre = []"
proof -
  let ?c1 = "Communicate (stat_cmd bf host)"
  let ?c2 = "Communicate (stat_cmd bf ''localhost'')"
  let ?scp = "Shell (''scp -p '' @ bf @ '' '' @ host @ '':'')"
  let ?cmd = "''ssh '' @ host @ '' '' @ dq @ cmd @ dq"
  from get_file_mod_date_coop [OF assms(1)]
  obtain r where r: "get_file_mod_date w bf host tr = (Inr r, tr @ [?c1])" by blast
  from get_file_mod_date_coop [OF assms(1)]
  obtain l where l: "get_file_mod_date w bf ''localhost'' (tr @ [?c1]) = (Inr l, (tr @ [?c1]) @ [?c2])"
    by blast
  show ?thesis
  proof (cases "r = l")
    case True
    from assms(1) obtain p where p: "w (tr @ [?c1, ?c2]) ?cmd = Inr p"
      unfolding cooperative_def by blast
    have "remote_blender w host bf out fs tr =
        (Inr (length tr + length [?c1, ?c2]), tr @ [?c1, ?c2] @ [Popen ?cmd])"
      using True p by (simp add: remote_blender_def r l assms(2) Let_def)
    moreover have "launched [?c1, ?c2] = []" "waits [?c1, ?c2] = []" by simp_all
    ultimately show ?thesis by blast
  next
    case False
    from assms(1) obtain p where p: "w (tr @ [?c1, ?c2, ?scp]) ?cmd = Inr p"
      unfolding cooperative_def by blast
    have c: "copy_to_host w bf host (tr @ [?c1, ?c2]) = (Inr (), tr @ [?c1, ?c2, ?scp])"
      using shell_coop [OF assms(1)] by (simp add: copy_to_host_def)
    have "remote_blender w host bf out fs tr =
        (Inr (length tr + length [?c1, ?c2, ?scp]), tr @ [?c1, ?c2, ?scp] @ [Popen ?cmd])"
      using False p c by (simp add: remote_blender_def r l assms(2) Let_def)
    moreover have "launched [?c1, ?c2, ?scp] = []" "waits [?c1, ?c2, ?scp] = []" by simp_all
    ultimately show ?thesis by blast
  qed
qed

text \<open>
  The launch loop: every host gets exactly one launch, in the order of the list, and no
  wait happens in between; the handles collected are those of the launches.
\<close>

lemma launch_loop_coop:
  assumes "cooperative w" and "arg_output a = Some out"
    and "\<forall>host \<in> set hosts. \<exists>fs. getitem fph host = Inr fs"
  shows "\<exists>L. launch_loop w a fph hosts ps tr = (Inr (ps @ handles (length tr) L), tr @ L)
           \<and> waits L = [] \<and> list_all2 (launch_cmd_for a fph) hosts (launched L)"
  using assms(3)
proof (induction hosts arbitrary: ps tr)
  case Nil
  show ?case by (intro exI [of _ "[]"]) simp
next
  case (Cons host hosts)
  let ?bf = "arg_blend_file a"
  from Cons.prems obtain fs where fs: "getitem fph host = Inr fs" by auto
  from build_blender_ok [of ?bf out "Some fs"]
  obtain cmd where cmd: "build_blender ?bf (arg_output a) (Some fs) = Inr cmd"
    using assms(2) by auto
  let ?c = "if host = ''localhost'' then cmd else ''ssh '' @ host @ '' '' @ dq @ cmd @ dq"
  have "\<exists>pre. (if host = ''localhost'' then blender w ?bf (arg_output a) (Some fs) tr
                 else remote_blender w host ?bf (arg_output a) (Some fs) tr)
               = (Inr (length tr + length pre), tr @ pre @ [Popen ?c])
             \<and> launched pre = [] \<and> waits pre = []"
  proof (cases "host = ''localhost''")
    case True
    have "blender w ?bf (arg_output a) (Some fs) tr = (Inr (length tr + length []), tr @ [] @ [Popen cmd])"
      using blender_coop [OF assms(1) cmd] by simp
    then show ?thesis using True by (intro exI [of _ "[]"]) simp
  next
    case False
    then show ?thesis using remote_blender_coop [OF assms(1) cmd, of host tr] by simp
  qed
  then obtain pre where step:
    "(if host = ''localhost'' then blender w ?bf (arg_output a) (Some fs) tr
      else remote_blender w host ?bf (arg_output a) (Some fs) tr)
     = (Inr (length tr + length pre), tr @ pre @ [Popen ?c])"
    and pre: "launched pre = []" "waits pre = []"
    by blast
  have rest: "\<forall>host \<in> set hosts. \<exists>fs. getitem fph host = Inr fs" using Cons.prems by simp
  from Cons.IH [OF rest, of "ps @ [length tr + length pre]" "tr @ pre @ [Popen ?c]"]
  obtain L where L:
    "launch_loop w a fph hosts (ps @ [length tr + length pre]) (tr @ pre @ [Popen ?c])
       = (Inr ((ps @ [length tr + length pre]) @ handles (length (tr @ pre @ [Popen ?c])) L),
          (tr @ pre @ [Popen ?c]) @ L)"
    "waits L = []" "list_all2 (launch_cmd_for a fph) hosts (launched L)"
    by blast
  let ?L = "pre @ [Popen ?c] @ L"
  have h: "handles (length tr) ?L = (length tr + length pre) # handles (length (tr @ pre @ [Popen ?c])) L"
    using pre(1) by (simp add: handles_append handles_no_launch)
  have "launch_loop w a fph (host # hosts) ps tr = (Inr (ps @ handles (length tr) ?L), tr @ ?L)"
    unfolding h using fs step L(1) by simp
  moreover have "waits ?L = []" using pre(2) L(2) by (simp add: waits_append)
  moreover have "launch_cmd_for a fph host ?c"
    unfolding launch_cmd_for_def using fs cmd by blast
  then have "list_all2 (launch_cmd_for a fph) (host # hosts) (launched ?L)"
    using pre(1) L(3) by (simp add: launched_append)
  ultimately show ?case by blast
qed

text \<open>The retrieval loop: for every host but the local one, the copy and then the delete.\<close>

lemma retrieve_loop_coop:
  assumes "cooperative w" and "arg_output a = Some out"
  shows "retrieve_loop w a hosts tr =
           (Inr (), tr @ concat (map (\<lambda>host.
              [Shell (''scp -r '' @ dq @ host @ '':'' @ out @ ''/*'' @ dq @ '' ./'' @ out),
               Shell (''ssh '' @ host @ '' rm -r '' @ out)])
              (filter (\<lambda>host. host \<noteq> ''localhost'') hosts)))"
proof (induction hosts arbitrary: tr)
  case Nil
  show ?case by simp
next
  case (Cons host hosts)
  show ?case
  proof (cases "host = ''localhost''")
    case True
    then show ?thesis using Cons.IH [of tr] by simp
  next
    case False
    let ?scp = "Shell (''scp -r '' @ dq @ host @ '':'' @ out @ ''/*'' @ dq @ '' ./'' @ out)"
    let ?rm = "Shell (''ssh '' @ host @ '' rm -r '' @ out)"
    have c: "copy_results_from_host w host (arg_output a) tr = (Inr (), tr @ [?scp])"
      using shell_coop [OF assms(1)] assms(2)
      by (simp add: copy_results_from_host_def format_opt_def)
    have r: "cleanup_host w host (arg_blend_file a) (arg_output a) (tr @ [?scp])
        = (Inr (), (tr @ [?scp]) @ [?rm])"
      using shell_coop [OF assms(1)] assms(2) by (simp add: cleanup_host_def format_opt_def)
    show ?thesis using False c r Cons.IH [of "(tr @ [?scp]) @ [?rm]"] by simp
  qed
qed

text \<open>Every listed host is a key of the assignment.\<close>

lemma foldl_update_keys:
  "fst ` set (foldl (\<lambda>d (host, fs). AList.update host fs d) d ps) = fst ` set d \<union> fst ` set ps"
proof (induction ps arbitrary: d)
  case Nil
  show ?case by simp
next
  case (Cons p ps)
  obtain k v where p: "p = (k, v)" by (cases p)
  show ?case unfolding p using Cons.IH [of "AList.update k v d"] by (auto simp: dom_update)
qed

lemma split_frames_per_host_keys:
  assumes "hosts \<noteq> []"
  shows "\<exists>fph. split_frames_per_host frames hosts = Inr fph \<and> fst ` set fph = set hosts"
proof -
  have K: "1 \<le> int (length hosts)" using assms by (cases hosts) auto
  from slice_list_chunks [OF K, of frames]
  obtain cs where cs: "slice_list frames (int (length hosts)) = Inr cs" "length cs = length hosts"
    by auto
  have "fst ` set (zip hosts cs) = set hosts"
    using cs(2) by (metis list.set_map map_fst_zip)
  then show ?thesis by (simp add: split_frames_per_host_def cs(1) foldl_update_keys)
qed

lemma getitem_key: "k \<in> fst ` set d \<Longrightarrow> \<exists>v. getitem d k = Inr v"
  by (cases "map_of d k") (auto simp: getitem_def map_of_eq_None_iff)

text \<open>
  A whole run in a cooperative world, with at least one host and an output directory:
  the launches, then the waits on their handles in order, then the retrieval.
\<close>

lemma run_trace:
  assumes "cooperative w" and "run_frames a = Inr frames" and "arg_distribute a \<noteq> []"
    and "arg_output a = Some out"
  shows "\<exists>fph L. split_frames_per_host frames (arg_distribute a) = Inr fph
           \<and> run w a tr =
               (Inr (), tr @ L @ map Wait (handles (length tr) L)
                  @ concat (map (\<lambda>host.
                      [Shell (''scp -r '' @ dq @ host @ '':'' @ out @ ''/*'' @ dq @ '' ./'' @ out),
                       Shell (''ssh '' @ host @ '' rm -r '' @ out)])
                      (filter (\<lambda>host. host \<noteq> ''localhost'') (arg_distribute a))))
           \<and> waits L = [] \<and> list_all2 (launch_cmd_for a fph) (arg_distribute a) (launched L)"
proof -
  from split_frames_per_host_keys [OF assms(3), of frames]
  obtain fph where fph: "split_frames_per_host frames (arg_distribute a) = Inr fph"
    "fst ` set fph = set (arg_distribute a)"
    by blast
  have keys: "\<forall>host \<in> set (arg_distribute a). \<exists>fs. getitem fph host = Inr fs"
    using fph(2) getitem_key [of _ fph] by blast
  from launch_loop_coop [OF assms(1) assms(4) keys, of "[]" tr]
  obtain L where L:
    "launch_loop w a fph (arg_distribute a) [] tr = (Inr ([] @ handles (length tr) L), tr @ L)"
    "waits L = []" "list_all2 (launch_cmd_for a fph) (arg_distribute a) (launched L)"
    by blast
  have "run w a tr =
      retrieve_loop w a (arg_distribute a) ((tr @ L) @ map Wait (handles (length tr) L))"
    using assms(2) fph(1) L(1) by (simp add: run_def wait_loop_trace)
  then have "run w a tr =
               (Inr (), tr @ L @ map Wait (handles (length tr) L)
                  @ concat (map (\<lambda>host.
                      [Shell (''scp -r '' @ dq @ host @ '':'' @ out @ ''/*'' @ dq @ '' ./'' @ out),
                       Shell (''ssh '' @ host @ '' rm -r '' @ out)])
                      (filter (\<lambda>host. host \<noteq> ''localhost'') (arg_distribute a))))"
    by (simp add: retrieve_loop_coop [OF assms(1) assms(4)])
  with fph(1) L(2,3) show ?thesis by blast
qed

lemma cooperative_stamps_world:
  "regex_search remote \<noteq> None \<Longrightarrow> regex_search local \<noteq> None \<Longrightarrow>
   cooperative (stamps_world rc remote local)"
  by (simp add: cooperative_def stamps_world_def)

lemma stat_texts_match:
  "regex_search stat_text_may = Some ''Modify: 2017-05-01 10:20:30''"
  "regex_search stat_text_june = Some ''Modify: 2017-06-02 11:22:33''"
  by code_simp+

section \<open>The order of launches and waits in any world\<close>

text \<open>
  Whatever the world answers, also when a call raises and the run stops there, the calls
  made before the wait loop contain no wait and the calls made from the wait loop on
  contain no launch.
\<close>

lemma shell_trace: "snd (shell w c tr) = tr @ [Shell c]"
  by (simp add: shell_def split: sum.split)

lemma blender_no_wait: "\<exists>E. snd (blender w bf out fs tr) = tr @ E \<and> waits E = []"
  by (simp add: blender_def split: sum.split)

lemma remote_blender_no_wait:
  "\<exists>E. snd (remote_blender w host bf out fs tr) = tr @ E \<and> waits E = []"
proof -
  let ?c1 = "Communicate (stat_cmd bf host)"
  let ?c2 = "Communicate (stat_cmd bf ''localhost'')"
  let ?scp = "Shell (''scp -p '' @ bf @ '' '' @ host @ '':'')"
  define r1 where "r1 = fst (get_file_mod_date w bf host tr)"
  define r2 where "r2 = fst (get_file_mod_date w bf ''localhost'' (tr @ [?c1]))"
  define r3 where "r3 = fst (copy_to_host w bf host (tr @ [?c1, ?c2]))"
  have g1: "get_file_mod_date w bf host tr = (r1, tr @ [?c1])"
    by (simp add: prod_eq_iff r1_def get_file_mod_date_trace)
  have g2: "get_file_mod_date w bf ''localhost'' (tr @ [?c1]) = (r2, tr @ [?c1, ?c2])"
    by (simp add: prod_eq_iff r2_def get_file_mod_date_trace)
  have g3: "copy_to_host w bf host (tr @ [?c1, ?c2]) = (r3, tr @ [?c1, ?c2, ?scp])"
    by (simp add: prod_eq_iff r3_def copy_to_host_def shell_trace)
  show ?thesis
    by (simp add: remote_blender_def g1 g2 g3 Let_def split: sum.split)
qed

lemma launch_loop_no_wait:
  "\<exists>L. snd (launch_loop w a fph hosts ps tr) = tr @ L \<and> waits L = []"
proof (induction hosts arbitrary: ps tr)
  case Nil
  show ?case by (intro exI [of _ "[]"]) simp
next
  case (Cons host hosts)
  show ?case
  proof (cases "getitem fph host")
    case (Inl e)
    then show ?thesis by (intro exI [of _ "[]"]) simp
  next
    case (Inr fs)
    define st where "st = (if host = ''localhost'' then
                   blender w (arg_blend_file a) (arg_output a) (Some fs) tr
                 else remote_blender w host (arg_blend_file a) (arg_output a) (Some fs) tr)"
    have loop: "launch_loop w a fph (host # hosts) ps tr =
        (case st of (Inl e, tr') \<Rightarrow> (Inl e, tr')
         | (Inr p, tr') \<Rightarrow> launch_loop w a fph hosts (ps @ [p]) tr')"
      unfolding st_def using Inr by simp
    have "\<exists>E. snd st = tr @ E \<and> waits E = []"
      unfolding st_def using blender_no_wait remote_blender_no_wait by simp
    then obtain E where E: "snd st = tr @ E" "waits E = []" by blast
    define r where "r = fst st"
    have s: "st = (r, tr @ E)" by (simp add: prod_eq_iff r_def E(1))
    show ?thesis
    proof (cases r)
      case (Inl e)
      have "snd (launch_loop w a fph (host # hosts) ps tr) = tr @ E"
        unfolding loop s Inl by simp
      with E(2) show ?thesis by blast
    next
      case (Inr p)
      from Cons.IH [of "ps @ [p]" "tr @ E"]
      obtain L where L: "snd (launch_loop w a fph hosts (ps @ [p]) (tr @ E)) = (tr @ E) @ L"
        "waits L = []"
        by blast
      have "snd (launch_loop w a fph (host # hosts) ps tr) = tr @ (E @ L)"
        unfolding loop s Inr using L(1) by simp
      moreover have "waits (E @ L) = []" using E(2) L(2) by (simp add: waits_append)
      ultimately show ?thesis by blast
    qed
  qed
qed

lemma retrieve_loop_no_launch:
  "\<exists>R. snd (retrieve_loop w a hosts tr) = tr @ R \<and> launched R = [] \<and> waits R = []"
proof (induction hosts arbitrary: tr)
  case Nil
  show ?case by (intro exI [of _ "[]"]) simp
next
  case (Cons host hosts)
  show ?case
  proof (cases "host = ''localhost''")
    case True
    then show ?thesis using Cons.IH [of tr] by simp
  next
    case False
    define c1 where "c1 = ''scp -r '' @ dq @ host @ '':'' @ format_opt (arg_output a) @ ''/*'' @ dq
      @ '' ./'' @ format_opt (arg_output a)"
    define c2 where "c2 = ''ssh '' @ host @ '' rm -r '' @ format_opt (arg_output a)"
    define r1 where "r1 = fst (copy_results_from_host w host (arg_output a) tr)"
    define r2 where
      "r2 = fst (cleanup_host w host (arg_blend_file a) (arg_output a) (tr @ [Shell c1]))"
    have g1: "copy_results_from_host w host (arg_output a) tr = (r1, tr @ [Shell c1])"
      by (simp add: prod_eq_iff r1_def c1_def copy_results_from_host_def shell_trace)
    have g2: "cleanup_host w host (arg_blend_file a) (arg_output a) (tr @ [Shell c1])
        = (r2, tr @ [Shell c1, Shell c2])"
      by (simp add: prod_eq_iff r2_def c2_def cleanup_host_def shell_trace)
    from Cons.IH [of "tr @ [Shell c1, Shell c2]"]
    obtain R where R: "snd (retrieve_loop w a hosts (tr @ [Shell c1, Shell c2]))
        = (tr @ [Shell c1, Shell c2]) @ R" "launched R = []" "waits R = []"
      by blast
    have "snd (retrieve_loop w a (host # hosts) tr)
        \<in> {tr @ [Shell c1], tr @ [Shell c1, Shell c2], tr @ ([Shell c1, Shell c2] @ R)}"
      using False g1 g2 R(1) by (simp split: sum.split)
    then consider "snd (retrieve_loop w a (host # hosts) tr) = tr @ [Shell c1]"
      | "snd (retrieve_loop w a (host # hosts) tr) = tr @ [Shell c1, Shell c2]"
      | "snd (retrieve_loop w a (host # hosts) tr) = tr @ ([Shell c1, Shell c2] @ R)"
      by blast
    then show ?thesis
    proof cases
      case 1
      then show ?thesis by (intro exI [of _ "[Shell c1]"]) simp
    next
      case 2
      then show ?thesis by (intro exI [of _ "[Shell c1, Shell c2]"]) simp
    next
      case 3
      then show ?thesis using R(2,3) by (intro exI [of _ "[Shell c1, Shell c2] @ R"]) simp
    qed
  qed
qed

lemma run_no_launch_after_wait:
  "\<exists>L R. snd (run w a tr) = tr @ L @ R \<and> waits L = [] \<and> launched R = []"
proof (cases "run_frames a")
  case (Inl e)
  then have "snd (run w a tr) = tr @ [] @ []" by (simp add: run_def)
  then show ?thesis by (intro exI [of _ "[]"]) simp
next
  case frames: (Inr frames)
  show ?thesis
  proof (cases "split_frames_per_host frames (arg_distribute a)")
    case (Inl e)
    then have "snd (run w a tr) = tr @ [] @ []" using frames by (simp add: run_def)
    then show ?thesis by (intro exI [of _ "[]"]) simp
  next
    case fph: (Inr fph)
    from launch_loop_no_wait [of w a fph "arg_distribute a" "[]" tr]
    obtain L where L: "snd (launch_loop w a fph (arg_distribute a) [] tr) = tr @ L" "waits L = []"
      by blast
    show ?thesis
    proof (cases "fst (launch_loop w a fph (arg_distribute a) [] tr)")
      case (Inl e)
      then have "launch_loop w a fph (arg_distribute a) [] tr = (Inl e, tr @ L)"
        using L(1) by (simp add: prod_eq_iff)
      then have "snd (run w a tr) = tr @ L @ []" using frames fph by (simp add: run_def)
      with L(2) show ?thesis by (intro exI [of _ L] exI [of _ "[]"]) simp
    next
      case (Inr processes)
      then have l: "launch_loop w a fph (arg_distribute a) [] tr = (Inr processes, tr @ L)"
        using L(1) by (simp add: prod_eq_iff)
      from retrieve_loop_no_launch [of w a "arg_distribute a" "(tr @ L) @ map Wait processes"]
      obtain R where R: "snd (retrieve_loop w a (arg_distribute a) ((tr @ L) @ map Wait processes))
          = ((tr @ L) @ map Wait processes) @ R" "launched R = []"
        by blast
      have "snd (run w a tr) = tr @ L @ (map Wait processes @ R)"
        using frames fph l R(1) by (simp add: run_def wait_loop_trace)
      moreover have "launched (map Wait processes @ R) = []"
        using R(2) by (simp add: launched_append launched_waits)
      ultimately show ?thesis using L(2) by blast
    qed
  qed
qed

section \<open>Launching, waiting, retrieval and configuration\<close>

text \<open>
  Claim C8 (launcher ordering), as amended. In every world, also when a call raises and
  the run stops there, the calls of a run split into a part with no wait followed by a
  part with no launch: every launch comes before any wait. In a cooperative world, for a
  run whose frame range can be computed, with at least one host and an output directory,
  the trace is a launch part \<open>L\<close>, then the waits on the handles of the launches in the
  order of the launches, then a rest \<open>R\<close> with no launch and no wait; and the launches
  of \<open>L\<close> correspond one to one, in order, to the entries of the host list: each is the
  render command of the host's frames, whether or not the host has any, run directly for
  \<^verbatim>\<open>localhost\<close> and wrapped in \<^verbatim>\<open>ssh\<close> otherwise.
\<close>

theorem run_launches_before_waits:
  "(\<exists>L R. snd (run w a tr) = tr @ L @ R \<and> waits L = [] \<and> launched R = [])
   \<and> (cooperative w \<and> run_frames a = Inr frames \<and> arg_distribute a \<noteq> []
        \<and> arg_output a = Some out \<longrightarrow>
      (\<exists>fph L R. split_frames_per_host frames (arg_distribute a) = Inr fph
           \<and> run w a tr = (Inr (), tr @ L @ map Wait (handles (length tr) L) @ R)
           \<and> waits L = [] \<and> launched R = [] \<and> waits R = []
           \<and> list_all2 (launch_cmd_for a fph) (arg_distribute a) (launched L)))"
proof (intro conjI impI)
  show "\<exists>L R. snd (run w a tr) = tr @ L @ R \<and> waits L = [] \<and> launched R = []"
    by (rule run_no_launch_after_wait)
next
  assume h: "cooperative w \<and> run_frames a = Inr frames \<and> arg_distribute a \<noteq> []
      \<and> arg_output a = Some out"
  then have h1: "cooperative w" and h2: "run_frames a = Inr frames"
    and h3: "arg_distribute a \<noteq> []" and h4: "arg_output a = Some out"
    by simp_all
  let ?R = "concat (map (\<lambda>host.
      [Shell (''scp -r '' @ dq @ host @ '':'' @ out @ ''/*'' @ dq @ '' ./'' @ out),
       Shell (''ssh '' @ host @ '' rm -r '' @ out)])
      (filter (\<lambda>host. host \<noteq> ''localhost'') (arg_distribute a)))"
  from run_trace [OF h1 h2 h3 h4, of tr]
  obtain fph L where t: "split_frames_per_host frames (arg_distribute a) = Inr fph"
    "run w a tr = (Inr (), tr @ L @ map Wait (handles (length tr) L) @ ?R)"
    "waits L = []" "list_all2 (launch_cmd_for a fph) (arg_distribute a) (launched L)"
    by blast
  have "launched (concat (map (\<lambda>host.
      [Shell (''scp -r '' @ dq @ host @ '':'' @ out @ ''/*'' @ dq @ '' ./'' @ out),
       Shell (''ssh '' @ host @ '' rm -r '' @ out)]) hs)) = []" for hs
    by (induction hs) simp_all
  then have l: "launched ?R = []" .
  have "waits (concat (map (\<lambda>host.
      [Shell (''scp -r '' @ dq @ host @ '':'' @ out @ ''/*'' @ dq @ '' ./'' @ out),
       Shell (''ssh '' @ host @ '' rm -r '' @ out)]) hs)) = []" for hs
    by (induction hs) simp_all
  then have "waits ?R = []" .
  with t l show "\<exists>fph L R. split_frames_per_host frames (arg_distribute a) = Inr fph
           \<and> run w a tr = (Inr (), tr @ L @ map Wait (handles (length tr) L) @ R)
           \<and> waits L = [] \<and> launched R = [] \<and> waits R = []
           \<and> list_all2 (launch_cmd_for a fph) (arg_distribute a) (launched L)"
    by blast
qed

theorem run_launches_before_waits_witness:
  "cooperative (stamps_world 0 stat_text_june stat_text_may)
   \<and> run_frames (sample_args 1 1 [''localhost'', ''worker1'']) = Inr [1]
   \<and> arg_distribute (sample_args 1 1 [''localhost'', ''worker1'']) \<noteq> []
   \<and> arg_output (sample_args 1 1 [''localhost'', ''worker1'']) = Some ''out''
   \<and> (\<exists>fph L R.
         split_frames_per_host [1]
           (arg_distribute (sample_args 1 1 [''localhost'', ''worker1''])) = Inr fph
         \<and> run (stamps_world 0 stat_text_june stat_text_may)
             (sample_args 1 1 [''localhost'', ''worker1'']) []
            = (Inr (), [] @ L @ map Wait (handles (length ([] :: event list)) L) @ R)
         \<and> waits L = [] \<and> launched R = [] \<and> waits R = []
         \<and> list_all2 (launch_cmd_for (sample_args 1 1 [''localhost'', ''worker1'']) fph)
             (arg_distribute (sample_args 1 1 [''localhost'', ''worker1''])) (launched L))"
proof -
  let ?w = "stamps_world 0 stat_text_june stat_text_may"
  let ?a = "sample_args 1 1 [''localhost'', ''worker1'']"
  have h1: "cooperative ?w"
    by (rule cooperative_stamps_world) (simp_all add: stat_texts_match)
  have h2: "run_frames ?a = Inr [1]" by code_simp
  have h3: "arg_distribute ?a \<noteq> []" by (simp add: sample_args_def)
  have h4: "arg_output ?a = Some ''out''" by (simp add: sample_args_def)
  have hyp: "cooperative ?w \<and> run_frames ?a = Inr [1] \<and> arg_distribute ?a \<noteq> []
      \<and> arg_output ?a = Some ''out''"
    using h1 h2 h3 h4 by (intro conjI)
  note c = run_launches_before_waits [where w = ?w and a = ?a and tr = "[]" and frames = "[1]"
      and out = "''out''", THEN conjunct2, THEN mp, OF hyp]
  from h1 h2 h3 h4 c show ?thesis by (intro conjI)
qed

text \<open>
  The claim as stated, for every run, fails when a timestamp query in the launch loop
  finds no timestamp line, as when the remote host prints nothing: the run stops there
  with two hosts listed, one process launched and no wait on it.
\<close>

theorem run_launch_abort_counterexample:
  "run (stamps_world 0 [] stat_text_may) (sample_args 1 2 [''localhost'', ''worker1'']) []
     = (Inl TypeError,
        [Popen ''blender -b scene.blend -o out/####.png -f 1'',
         Communicate (''ssh worker1 '' @ dq @ ''stat scene.blend'' @ dq)])
   \<and> launched (snd (run (stamps_world 0 [] stat_text_may)
                        (sample_args 1 2 [''localhost'', ''worker1'']) []))
       = [''blender -b scene.blend -o out/####.png -f 1'']
   \<and> waits (snd (run (stamps_world 0 [] stat_text_may)
                     (sample_args 1 2 [''localhost'', ''worker1'']) [])) = []"
  by code_simp



text \<open>An empty frame range gives every host the empty slice.\<close>

lemma set_update_subset: "set (AList.update k v d) \<subseteq> insert (k, v) (set d)"
  by (induction d) auto

lemma foldl_update_values:
  "\<forall>p \<in> set d. P (snd p) \<Longrightarrow> \<forall>p \<in> set ps. P (snd p) \<Longrightarrow>
   \<forall>p \<in> set (foldl (\<lambda>d (host, fs). AList.update host fs d) d ps). P (snd p)"
proof (induction ps arbitrary: d)
  case Nil
  then show ?case by simp
next
  case (Cons q ps)
  obtain k v where q: "q = (k, v)" by (cases q)
  have "\<forall>p \<in> set (AList.update k v d). P (snd p)"
    using Cons.prems q set_update_subset [of k v d] by auto
  moreover have "\<forall>p \<in> set ps. P (snd p)" using Cons.prems by simp
  ultimately show ?case unfolding q using Cons.IH [of "AList.update k v d"] by simp
qed

lemma split_frames_per_host_empty:
  assumes "hosts \<noteq> []"
  shows "\<exists>fph. split_frames_per_host ([] :: int list) hosts = Inr fph
           \<and> (\<forall>host \<in> set hosts. getitem fph host = Inr [])"
proof -
  from split_frames_per_host_keys [OF assms, of "[] :: int list"]
  obtain fph where fph: "split_frames_per_host ([] :: int list) hosts = Inr fph"
    "fst ` set fph = set hosts"
    by blast
  have K: "1 \<le> int (length hosts)" using assms by (cases hosts) auto
  from slice_list_chunks [OF K, of "[] :: int list"]
  obtain cs where cs: "slice_list ([] :: int list) (int (length hosts)) = Inr cs" "concat cs = []"
    by auto
  have "\<forall>c \<in> set cs. c = []" using cs(2) by simp
  then have "\<forall>p \<in> set (zip hosts cs). snd p = []"
    by (auto dest: set_zip_rightD)
  then have "\<forall>p \<in> set (foldl (\<lambda>d (host, fs). AList.update host fs d) [] (zip hosts cs)).
      snd p = []"
    by (intro foldl_update_values) simp_all
  then have vals: "\<forall>p \<in> set fph. snd p = []"
    using fph(1) by (simp add: split_frames_per_host_def cs(1))
  have "getitem fph host = Inr []" if "host \<in> set hosts" for host
  proof -
    from that fph(2) getitem_key [of host fph]
    obtain v where v: "getitem fph host = Inr v" by blast
    then have "map_of fph host = Some v"
      by (cases "map_of fph host") (simp_all add: getitem_def)
    then have "(host, v) \<in> set fph" by (rule map_of_SomeD)
    with vals have "v = []" by auto
    with v show ?thesis by simp
  qed
  with fph(1) show ?thesis by blast
qed

lemma build_blender_no_frames:
  "build_blender blend_file (Some out) (Some []) =
     Inr (''blender -b '' @ blend_file @ '' -o '' @ path_join out ''####.png'' @ '' -f '')"
  by (simp add: build_frames_def build_blender_def build_output_def dict_update_def getitem_def)

text \<open>
  Claim C4 (configuration), as amended. With no host the run fails before any process
  is started: the trace is unchanged, and the exception is the \<^verbatim>\<open>ZeroDivisionError\<close>
  of the partitioner unless the frame range itself could not be computed. An empty frame
  range is not rejected: with at least one host the partitioner returns an assignment
  that gives every listed host the empty slice, and the run goes on to the launch loop.
  When moreover an output directory is given and the world is cooperative, the run
  completes, and its launches correspond one to one, in order, to the listed hosts, each
  the render command with the bare flag \<^verbatim>\<open>-f \<close> and no frame, run directly for
  \<^verbatim>\<open>localhost\<close> and wrapped in \<^verbatim>\<open>ssh\<close> otherwise.
\<close>

theorem run_configuration:
  "(arg_distribute a = [] \<longrightarrow>
      run w a tr = (Inl (case run_frames a of Inl e \<Rightarrow> e | Inr frames \<Rightarrow> ZeroDivisionError), tr))
   \<and> (arg_distribute a \<noteq> [] \<and> run_frames a = Inr [] \<longrightarrow>
      (\<exists>fph. split_frames_per_host ([] :: int list) (arg_distribute a) = Inr fph
         \<and> (\<forall>host \<in> set (arg_distribute a). getitem fph host = Inr [])
         \<and> run w a tr =
             (case launch_loop w a fph (arg_distribute a) [] tr of
                (Inl e, tr1) \<Rightarrow> (Inl e, tr1)
              | (Inr processes, tr1) \<Rightarrow>
                  retrieve_loop w a (arg_distribute a) (wait_loop processes tr1))))
   \<and> (arg_distribute a \<noteq> [] \<and> run_frames a = Inr [] \<and> arg_output a = Some out \<and> cooperative w \<longrightarrow>
      (\<exists>L R. run w a tr = (Inr (), tr @ L @ R) \<and> launched R = []
         \<and> list_all2
             (\<lambda>host c. c =
                (if host = ''localhost'' then
                   ''blender -b '' @ arg_blend_file a @ '' -o '' @ path_join out ''####.png''
                   @ '' -f ''
                 else
                   ''ssh '' @ host @ '' '' @ dq
                   @ (''blender -b '' @ arg_blend_file a @ '' -o '' @ path_join out ''####.png''
                      @ '' -f '')
                   @ dq))
             (arg_distribute a) (launched L)))"
proof (intro conjI impI)
  assume "arg_distribute a = []"
  then show "run w a tr =
      (Inl (case run_frames a of Inl e \<Rightarrow> e | Inr frames \<Rightarrow> ZeroDivisionError), tr)"
    by (simp add: run_def split_frames_per_host_def slice_list_def split: sum.split)
next
  assume h: "arg_distribute a \<noteq> [] \<and> run_frames a = Inr []"
  then have h2: "run_frames a = Inr []" and h3: "arg_distribute a \<noteq> []" by simp_all
  from split_frames_per_host_empty [OF h3]
  obtain fph where fph: "split_frames_per_host ([] :: int list) (arg_distribute a) = Inr fph"
    "\<forall>host \<in> set (arg_distribute a). getitem fph host = Inr []"
    by blast
  have "run w a tr =
             (case launch_loop w a fph (arg_distribute a) [] tr of
                (Inl e, tr1) \<Rightarrow> (Inl e, tr1)
              | (Inr processes, tr1) \<Rightarrow>
                  retrieve_loop w a (arg_distribute a) (wait_loop processes tr1))"
    by (simp add: run_def h2 fph(1))
  with fph show "\<exists>fph. split_frames_per_host ([] :: int list) (arg_distribute a) = Inr fph
         \<and> (\<forall>host \<in> set (arg_distribute a). getitem fph host = Inr [])
         \<and> run w a tr =
             (case launch_loop w a fph (arg_distribute a) [] tr of
                (Inl e, tr1) \<Rightarrow> (Inl e, tr1)
              | (Inr processes, tr1) \<Rightarrow>
                  retrieve_loop w a (arg_distribute a) (wait_loop processes tr1))"
    by blast
next
  assume h: "arg_distribute a \<noteq> [] \<and> run_frames a = Inr [] \<and> arg_output a = Some out
      \<and> cooperative w"
  then have h1: "cooperative w" and h2: "run_frames a = Inr []" and h3: "arg_distribute a \<noteq> []"
    and h4: "arg_output a = Some out"
    by simp_all
  let ?cmd = "''blender -b '' @ arg_blend_file a @ '' -o '' @ path_join out ''####.png''
      @ '' -f ''"
  let ?Q = "\<lambda>host c. c =
      (if host = ''localhost'' then ?cmd else ''ssh '' @ host @ '' '' @ dq @ ?cmd @ dq)"
  let ?R = "concat (map (\<lambda>host.
      [Shell (''scp -r '' @ dq @ host @ '':'' @ out @ ''/*'' @ dq @ '' ./'' @ out),
       Shell (''ssh '' @ host @ '' rm -r '' @ out)])
      (filter (\<lambda>host. host \<noteq> ''localhost'') (arg_distribute a)))"
  from split_frames_per_host_empty [OF h3]
  obtain fph0 where fph0: "split_frames_per_host ([] :: int list) (arg_distribute a) = Inr fph0"
    "\<forall>host \<in> set (arg_distribute a). getitem fph0 host = Inr []"
    by blast
  from run_trace [OF h1 h2 h3 h4, of tr]
  obtain fph L where t:
    "split_frames_per_host ([] :: int list) (arg_distribute a) = Inr fph"
    "run w a tr = (Inr (), tr @ L @ map Wait (handles (length tr) L) @ ?R)"
    "list_all2 (launch_cmd_for a fph) (arg_distribute a) (launched L)"
    by blast
  have same: "fph = fph0" using t(1) fph0(1) by simp
  have cmds: "list_all2 ?Q (arg_distribute a) (launched L)"
    using t(3)
  proof (rule list.rel_mono_strong)
    fix host c
    assume "host \<in> set (arg_distribute a)" and "launch_cmd_for a fph host c"
    then show "?Q host c"
      using fph0(2) unfolding same launch_cmd_for_def h4
      by (auto simp: build_blender_no_frames)
  qed
  have "launched (concat (map (\<lambda>host.
      [Shell (''scp -r '' @ dq @ host @ '':'' @ out @ ''/*'' @ dq @ '' ./'' @ out),
       Shell (''ssh '' @ host @ '' rm -r '' @ out)]) hs)) = []" for hs
    by (induction hs) simp_all
  then have "launched ?R = []" .
  then have r: "launched (map Wait (handles (length tr) L) @ ?R) = []"
    by (simp add: launched_append launched_waits)
  show "\<exists>L R. run w a tr = (Inr (), tr @ L @ R) \<and> launched R = []
         \<and> list_all2 ?Q (arg_distribute a) (launched L)"
    using t(2) r cmds by (intro exI [of _ L] exI [of _ "map Wait (handles (length tr) L) @ ?R"] conjI)
qed

theorem run_configuration_witness:
  "arg_distribute (sample_args 1 10 []) = []
   \<and> run (stamps_world 0 stat_text_may stat_text_may) (sample_args 1 10 []) []
       = (Inl ZeroDivisionError, [])
   \<and> arg_distribute (sample_args 20 10 [''localhost'', ''worker1'']) \<noteq> []
   \<and> run_frames (sample_args 20 10 [''localhost'', ''worker1'']) = Inr []
   \<and> arg_output (sample_args 20 10 [''localhost'', ''worker1'']) = Some ''out''
   \<and> cooperative (stamps_world 0 stat_text_may stat_text_may)
   \<and> (\<exists>fph. split_frames_per_host ([] :: int list)
                (arg_distribute (sample_args 20 10 [''localhost'', ''worker1''])) = Inr fph
         \<and> getitem fph ''localhost'' = Inr [] \<and> getitem fph ''worker1'' = Inr [])
   \<and> (\<exists>L R. run (stamps_world 0 stat_text_may stat_text_may)
                (sample_args 20 10 [''localhost'', ''worker1'']) [] = (Inr (), [] @ L @ R)
         \<and> launched R = []
         \<and> launched L =
             [''blender -b scene.blend -o out/####.png -f '',
              ''ssh worker1 '' @ dq @ ''blender -b scene.blend -o out/####.png -f '' @ dq])"
proof -
  let ?w = "stamps_world 0 stat_text_may stat_text_may"
  let ?none = "sample_args 1 10 []"
  let ?a = "sample_args 20 10 [''localhost'', ''worker1'']"
  have d: "arg_distribute ?none = []" by (simp add: sample_args_def)
  have f: "run_frames ?none = Inr [1, 2, 3, 4, 5, 6, 7, 8, 9, 10]" by code_simp
  have "run ?w ?none [] =
      (Inl (case run_frames ?none of Inl e \<Rightarrow> e | Inr frames \<Rightarrow> ZeroDivisionError), [])"
    by (rule run_configuration [where a = ?none and w = ?w and tr = "[]",
          THEN conjunct1, THEN mp, OF d])
  then have z: "run ?w ?none [] = (Inl ZeroDivisionError, [])" unfolding f by simp
  have h1: "cooperative ?w"
    by (rule cooperative_stamps_world) (simp_all add: stat_texts_match)
  have h2: "run_frames ?a = Inr []" by code_simp
  have h3: "arg_distribute ?a \<noteq> []" by (simp add: sample_args_def)
  have h4: "arg_output ?a = Some ''out''" by (simp add: sample_args_def)
  have hosts: "arg_distribute ?a = [''localhost'', ''worker1'']" by (simp add: sample_args_def)
  have bf: "arg_blend_file ?a = ''scene.blend''" by (simp add: sample_args_def)
  have path: "path_join ''out'' ''####.png'' = ''out/####.png''" by (simp add: path_join_def)
  have hyp2: "arg_distribute ?a \<noteq> [] \<and> run_frames ?a = Inr []"
    using h3 h2 by (intro conjI)
  have hyp3: "arg_distribute ?a \<noteq> [] \<and> run_frames ?a = Inr [] \<and> arg_output ?a = Some ''out''
      \<and> cooperative ?w"
    using h3 h2 h4 h1 by (intro conjI)
  from run_configuration [where a = ?a and w = ?w and tr = "[]" and out = "''out''",
      THEN conjunct2, THEN conjunct1, THEN mp, OF hyp2]
  obtain fph where fph: "split_frames_per_host ([] :: int list) (arg_distribute ?a) = Inr fph
      \<and> (\<forall>host \<in> set (arg_distribute ?a). getitem fph host = Inr [])
      \<and> run ?w ?a [] =
             (case launch_loop ?w ?a fph (arg_distribute ?a) [] [] of
                (Inl e, tr1) \<Rightarrow> (Inl e, tr1)
              | (Inr processes, tr1) \<Rightarrow>
                  retrieve_loop ?w ?a (arg_distribute ?a) (wait_loop processes tr1))" ..
  note all = fph [THEN conjunct2, THEN conjunct1, unfolded hosts]
  have g1: "getitem fph ''localhost'' = Inr []" using all by simp
  have g2: "getitem fph ''worker1'' = Inr []" using all by simp
  have p2: "\<exists>fph. split_frames_per_host ([] :: int list) (arg_distribute ?a) = Inr fph
         \<and> getitem fph ''localhost'' = Inr [] \<and> getitem fph ''worker1'' = Inr []"
    using fph [THEN conjunct1] g1 g2 by (intro exI [of _ fph] conjI)
  from run_configuration [where a = ?a and w = ?w and tr = "[]" and out = "''out''",
      THEN conjunct2, THEN conjunct2, THEN mp, OF hyp3]
  obtain L R where LR: "run ?w ?a [] = (Inr (), [] @ L @ R) \<and> launched R = []
         \<and> list_all2
             (\<lambda>host c. c =
                (if host = ''localhost'' then
                   ''blender -b '' @ arg_blend_file ?a @ '' -o '' @ path_join ''out'' ''####.png''
                   @ '' -f ''
                 else
                   ''ssh '' @ host @ '' '' @ dq
                   @ (''blender -b '' @ arg_blend_file ?a @ '' -o '' @ path_join ''out'' ''####.png''
                      @ '' -f '')
                   @ dq))
             (arg_distribute ?a) (launched L)"
    by (elim exE)
  note cmds = LR [THEN conjunct2, THEN conjunct2, unfolded hosts bf path]
  have l: "launched L =
             [''blender -b scene.blend -o out/####.png -f '',
              ''ssh worker1 '' @ dq @ ''blender -b scene.blend -o out/####.png -f '' @ dq]"
    using cmds by (simp add: list_all2_Cons1)
  have p3: "\<exists>L R. run ?w ?a [] = (Inr (), [] @ L @ R) \<and> launched R = []
         \<and> launched L =
             [''blender -b scene.blend -o out/####.png -f '',
              ''ssh worker1 '' @ dq @ ''blender -b scene.blend -o out/####.png -f '' @ dq]"
    using LR [THEN conjunct1] LR [THEN conjunct2, THEN conjunct1] l
    by (intro exI [of _ L] exI [of _ R] conjI)
  from d z h3 h2 h4 h1 p2 p3 show ?thesis by (intro conjI)
qed

text \<open>
  The claim as stated fails on the empty frame range: a run from frame 20 with 10 frames
  (the end before the start) raises nothing, and a render process is started.
\<close>

theorem run_empty_range_counterexample:
  "run_frames (sample_args 20 10 [''localhost'']) = Inr []
   \<and> run (stamps_world 0 stat_text_may stat_text_may) (sample_args 20 10 [''localhost'']) []
       = (Inr (), [Popen ''blender -b scene.blend -o out/####.png -f '', Wait 0])"
  by code_simp

end
